theory Spec2Isabelle
  imports Complex_Main "HOL-Library.AList"
begin

section \<open>Cards and hand values (games/blackjack.py)\<close>

datatype rank = Ace | Two | Three | Four | Five | Six | Seven | Eight | Nine | Ten
  | Jack | Queen | King

datatype suit = Spades | Hearts | Diamonds | Clubs

record card =
  rank :: rank
  suit :: suit

text \<open>The table \<^verbatim>\<open>self.card_values\<close>.\<close>

fun card_values :: "rank \<Rightarrow> int" where
  "card_values Ace = 11"
| "card_values Two = 2"
| "card_values Three = 3"
| "card_values Four = 4"
| "card_values Five = 5"
| "card_values Six = 6"
| "card_values Seven = 7"
| "card_values Eight = 8"
| "card_values Nine = 9"
| "card_values Ten = 10"
| "card_values Jack = 10"
| "card_values Queen = 10"
| "card_values King = 10"

definition card_value :: "card \<Rightarrow> int" where
  "card_value c = card_values (rank c)"

text \<open>
  \<^verbatim>\<open>hand_value\<close>: the \<^verbatim>\<open>for\<close> loop accumulates \<^verbatim>\<open>(value, aces)\<close>, the
  \<^verbatim>\<open>while value > 21 and aces > 0\<close> loop takes 10 off per ace.
\<close>

definition count_card :: "int \<times> nat \<Rightarrow> card \<Rightarrow> int \<times> nat" where
  "count_card acc c =
     (case acc of (val, aces) \<Rightarrow>
        if rank c = Ace then (val + 11, aces + 1) else (val + card_value c, aces))"

fun demote_aces :: "int \<Rightarrow> nat \<Rightarrow> int" where
  "demote_aces val 0 = val"
| "demote_aces val (Suc aces) = (if val > 21 then demote_aces (val - 10) aces else val)"

definition hand_value :: "card list \<Rightarrow> int" where
  "hand_value hand = (case foldl count_card (0, 0) hand of (val, aces) \<Rightarrow> demote_aces val aces)"

definition is_blackjack :: "card list \<Rightarrow> bool" where
  "is_blackjack hand \<longleftrightarrow> length hand = 2 \<and> hand_value hand = 21"

text \<open>
  \<^verbatim>\<open>should_dealer_hit\<close>: at a value of 17 the loop sums the hand again with every ace
  as 11 (\<^verbatim>\<open>temp_value\<close>) and sets \<^verbatim>\<open>has_ace_as_11\<close> at an ace where the running sum
  is at most 17.
\<close>

definition soft_scan :: "int \<times> bool \<Rightarrow> card \<Rightarrow> int \<times> bool" where
  "soft_scan acc c =
     (case acc of (temp_value, has_ace_as_11) \<Rightarrow>
        if rank c = Ace
        then (temp_value + 11, (if temp_value + 11 \<le> 17 then True else has_ace_as_11))
        else (temp_value + card_value c, has_ace_as_11))"

definition should_dealer_hit :: "card list \<Rightarrow> bool" where
  "should_dealer_hit dealer_hand =
     (let val = hand_value dealer_hand in
      if val < 17 then True
      else if val = 17 then
        (case foldl soft_scan (0, False) dealer_hand of
           (temp_value, has_ace_as_11) \<Rightarrow> has_ace_as_11 \<and> temp_value = 17)
      else False)"

subsection \<open>The hand value and the dealer policy as the specification words them\<close>

text \<open>
  Each card is counted with a value: faces 10, numerals their face value, an ace 11 at
  first. While the total exceeds 21 and an ace is still counted as 11, one such ace is
  counted as 1 instead.
\<close>

fun rank_value_spec :: "rank \<Rightarrow> int" where
  "rank_value_spec Ace = 11"
| "rank_value_spec Jack = 10"
| "rank_value_spec Queen = 10"
| "rank_value_spec King = 10"
| "rank_value_spec Two = 2"
| "rank_value_spec Three = 3"
| "rank_value_spec Four = 4"
| "rank_value_spec Five = 5"
| "rank_value_spec Six = 6"
| "rank_value_spec Seven = 7"
| "rank_value_spec Eight = 8"
| "rank_value_spec Nine = 9"
| "rank_value_spec Ten = 10"

definition initial_count :: "card list \<Rightarrow> (rank \<times> int) list" where
  "initial_count hand = map (\<lambda>c. (rank c, rank_value_spec (rank c))) hand"

definition count_total :: "(rank \<times> int) list \<Rightarrow> int" where
  "count_total cs = sum_list (map snd cs)"

definition high_aces :: "(rank \<times> int) list \<Rightarrow> nat" where
  "high_aces cs = length (filter (\<lambda>p. p = (Ace, 11)) cs)"

fun recount_one_ace :: "(rank \<times> int) list \<Rightarrow> (rank \<times> int) list" where
  "recount_one_ace [] = []"
| "recount_one_ace (p # cs) = (if p = (Ace, 11) then (Ace, 1) # cs else p # recount_one_ace cs)"

function recount :: "(rank \<times> int) list \<Rightarrow> (rank \<times> int) list" where
  "recount cs = (if count_total cs > 21 \<and> high_aces cs > 0 then recount (recount_one_ace cs) else cs)"
  by pat_completeness auto
termination
proof (relation "measure high_aces")
  show "wf (measure high_aces)" by simp
next
  fix cs :: "(rank \<times> int) list"
  assume "21 < count_total cs \<and> 0 < high_aces cs"
  then have "0 < high_aces cs" by simp
  then have "high_aces (recount_one_ace cs) < high_aces cs"
    by (induction cs) (auto simp: high_aces_def split: if_splits)
  then show "(recount_one_ace cs, cs) \<in> measure high_aces" by simp
qed

definition hand_value_spec :: "card list \<Rightarrow> int" where
  "hand_value_spec hand = count_total (recount (initial_count hand))"

text \<open>
  The dealer policy of the specification: the total with every ace counted as 1 is the
  hard total; a 17 is soft when it is not the hard total, that is, when it is reached
  only by counting an ace as 11.
\<close>

definition hard_total :: "card list \<Rightarrow> int" where
  "hard_total hand = sum_list (map (\<lambda>c. if rank c = Ace then 1 else rank_value_spec (rank c)) hand)"

definition dealer_draws_spec :: "card list \<Rightarrow> bool" where
  "dealer_draws_spec hand \<longleftrightarrow>
     hand_value_spec hand < 17 \<or> (hand_value_spec hand = 17 \<and> hard_total hand \<noteq> 17)"


text \<open>
  The sum of a hand with every ace as 11, and the number of its aces.
\<close>

definition raw_total :: "card list \<Rightarrow> int" where
  "raw_total hand = count_total (initial_count hand)"

definition aces :: "card list \<Rightarrow> nat" where
  "aces hand = high_aces (initial_count hand)"

section \<open>Outcomes of a call\<close>

text \<open>
  A call returns a value, raises an exception, or never returns because it waits for a
  lock that is not released. Every operation that touches shared state is a function
  from the state before to an outcome and the state at that point.
\<close>

datatype py_error = KeyError | IndexError

datatype 'a outcome = Returns 'a | Raises py_error | Blocks

type_synonym ('s, 'a) prog = "'s \<Rightarrow> 'a outcome \<times> 's"

definition return :: "'a \<Rightarrow> ('s, 'a) prog" where
  "return v s = (Returns v, s)"

definition raise :: "py_error \<Rightarrow> ('s, 'a) prog" where
  "raise e s = (Raises e, s)"

definition bind :: "('s, 'a) prog \<Rightarrow> ('a \<Rightarrow> ('s, 'b) prog) \<Rightarrow> ('s, 'b) prog" where
  "bind m f s =
     (case m s of
        (Returns v, s') \<Rightarrow> f v s'
      | (Raises e, s') \<Rightarrow> (Raises e, s')
      | (Blocks, s') \<Rightarrow> (Blocks, s'))"

section \<open>The ledger (utils/database.py)\<close>

type_synonym user_id = int
type_synonym timestamp = real

text \<open>
  The store is the dictionary \<^verbatim>\<open>self.data\<close> in memory. \<^verbatim>\<open>_save_data\<close> writes it to a
  file and swallows a failure of the write; the file is not part of the model. Every
  call reads the clock once, as the parameter \<open>now\<close>.

  One account, as \<^verbatim>\<open>get_user\<close> creates it. Dictionaries keep insertion order, so
  they are association lists; \<^const>\<open>AList.update\<close> replaces the value of a key where it
  stands and appends a new key at the end, as a Python \<^verbatim>\<open>dict\<close> does. The keys
  \<^verbatim>\<open>str(user_id)\<close> are modelled by the integers themselves. Time stamps are seconds.
\<close>

record account =
  balance :: int
  total_bet :: int
  total_won :: int
  games_played :: int
  last_daily :: "timestamp option"
  stats :: "(string \<times> int) list"
  created_at :: timestamp
  last_played :: timestamp

definition new_account :: "timestamp \<Rightarrow> account" where
  "new_account now =
     \<lparr>balance = 10000, total_bet = 0, total_won = 0, games_played = 0, last_daily = None,
      stats = [(''slots_played'', 0), (''slots_won'', 0), (''roulette_played'', 0),
               (''roulette_won'', 0), (''blackjack_played'', 0), (''blackjack_won'', 0),
               (''total_winnings'', 0), (''total_losses'', 0), (''biggest_win'', 0),
               (''biggest_loss'', 0), (''current_streak'', 0), (''best_streak'', 0)],
      created_at = now, last_played = now\<rparr>"

text \<open>
  \<^verbatim>\<open>self._lock\<close>. The class creates a \<^verbatim>\<open>threading.Lock()\<close>: acquiring it while it is
  held waits until it is released, also when the holder is the caller itself. A
  \<^verbatim>\<open>threading.RLock()\<close> counts the acquisitions of its holder instead. The
  \<^verbatim>\<open>with\<close> statement works on either; \<open>RLock\<close> is here to state what the
  critical sections compute once they are entered.
\<close>

datatype lock = Lock bool | RLock nat

fun acquire :: "lock \<Rightarrow> lock option" where
  "acquire (Lock False) = Some (Lock True)"
| "acquire (Lock True) = None"
| "acquire (RLock n) = Some (RLock (Suc n))"

fun release :: "lock \<Rightarrow> lock" where
  "release (Lock b) = Lock False"
| "release (RLock n) = RLock (n - 1)"

record database =
  users :: "(user_id \<times> account) list"
  global_stats :: "(string \<times> int) list"
  lock :: lock

text \<open>\<^verbatim>\<open>Database()\<close> on a missing or corrupted file.\<close>

definition init_database :: database where
  "init_database =
     \<lparr>users = [],
      global_stats = [(''total_games'', 0), (''total_bets'', 0), (''total_payouts'', 0)],
      lock = Lock False\<rparr>"

text \<open>
  \<^verbatim>\<open>with self._lock: body\<close>. The lock is released when the body returns or raises.
\<close>

definition with_lock :: "(database, 'a) prog \<Rightarrow> (database, 'a) prog" where
  "with_lock body db =
     (case acquire (lock db) of
        None \<Rightarrow> (Blocks, db)
      | Some l \<Rightarrow>
          (case body (db\<lparr>lock := l\<rparr>) of
             (Blocks, db') \<Rightarrow> (Blocks, db')
           | (r, db') \<Rightarrow> (r, db'\<lparr>lock := release (lock db')\<rparr>)))"

text \<open>\<^verbatim>\<open>self.data['users'][user_id_str]\<close>, read and written in place.\<close>

definition lookup_user :: "user_id \<Rightarrow> (database, account) prog" where
  "lookup_user uid db =
     (case map_of (users db) uid of None \<Rightarrow> raise KeyError db | Some a \<Rightarrow> return a db)"

definition store_user :: "user_id \<Rightarrow> account \<Rightarrow> (database, unit) prog" where
  "store_user uid a db = return () (db\<lparr>users := AList.update uid a (users db)\<rparr>)"

definition get_user :: "timestamp \<Rightarrow> user_id \<Rightarrow> (database, account) prog" where
  "get_user now uid =
     with_lock (\<lambda>db.
       case map_of (users db) uid of
         None \<Rightarrow> bind (store_user uid (new_account now)) (\<lambda>_. lookup_user uid) db
       | Some a \<Rightarrow> bind (store_user uid (a\<lparr>last_played := now\<rparr>)) (\<lambda>_. lookup_user uid) db)"

definition add_balance :: "timestamp \<Rightarrow> user_id \<Rightarrow> int \<Rightarrow> (database, unit) prog" where
  "add_balance now uid amount =
     with_lock
       (bind (get_user now uid) (\<lambda>user_data.
        bind (lookup_user uid) (\<lambda>a.
        store_user uid (a\<lparr>balance := balance a + amount\<rparr>))))"

definition subtract_balance :: "timestamp \<Rightarrow> user_id \<Rightarrow> int \<Rightarrow> (database, bool) prog" where
  "subtract_balance now uid amount =
     with_lock
       (bind (get_user now uid) (\<lambda>user_data.
        if balance user_data \<ge> amount
        then bind (lookup_user uid) (\<lambda>a.
             bind (store_user uid (a\<lparr>balance := balance a - amount\<rparr>)) (\<lambda>_.
             bind (lookup_user uid) (\<lambda>a.
             bind (store_user uid (a\<lparr>total_bet := total_bet a + amount\<rparr>)) (\<lambda>_.
             return True))))
        else return False))"


text \<open>\<^verbatim>\<open>self.data['users'][user_id_str]['stats'][name]\<close>, read and written in place.\<close>

definition lookup_stat :: "user_id \<Rightarrow> string \<Rightarrow> (database, int) prog" where
  "lookup_stat uid name =
     bind (lookup_user uid) (\<lambda>a.
       case map_of (stats a) name of None \<Rightarrow> raise KeyError | Some v \<Rightarrow> return v)"

definition store_stat :: "user_id \<Rightarrow> string \<Rightarrow> int \<Rightarrow> (database, unit) prog" where
  "store_stat uid name v =
     bind (lookup_user uid) (\<lambda>a. store_user uid (a\<lparr>stats := AList.update name v (stats a)\<rparr>))"

definition update_biggest :: "user_id \<Rightarrow> string \<Rightarrow> int \<Rightarrow> (database, unit) prog" where
  "update_biggest uid biggest val =
     bind (lookup_stat uid biggest) (\<lambda>current_biggest.
       if val > current_biggest then store_stat uid biggest val else return ())"

definition update_stats :: "timestamp \<Rightarrow> user_id \<Rightarrow> string \<Rightarrow> int \<Rightarrow> (database, unit) prog" where
  "update_stats now uid stat_name val =
     with_lock
       (bind (get_user now uid) (\<lambda>user_data.
        bind (lookup_user uid) (\<lambda>a.
        if map_of (stats a) stat_name \<noteq> None
        then bind (lookup_stat uid stat_name) (\<lambda>old.
             bind (store_stat uid stat_name (old + val)) (\<lambda>_.
             bind (if stat_name = ''total_winnings'' \<and> val > 0
                   then update_biggest uid ''biggest_win'' val else return ()) (\<lambda>_.
             if stat_name = ''total_losses'' \<and> val > 0
             then update_biggest uid ''biggest_loss'' val else return ())))
        else return ())))"


definition claim_daily :: "timestamp \<Rightarrow> user_id \<Rightarrow> int \<Rightarrow> (database, unit) prog" where
  "claim_daily now uid amount =
     with_lock
       (bind (lookup_user uid) (\<lambda>a.
        bind (store_user uid (a\<lparr>last_daily := Some now\<rparr>)) (\<lambda>_.
        add_balance now uid amount)))"

text \<open>
  \<^verbatim>\<open>get_leaderboard\<close> reads the store without the lock. \<^verbatim>\<open>users.sort(key=..., reverse=True)\<close>
  is a stable sort into descending order of the key: entries of equal balance keep the
  order of the dictionary. \<^const>\<open>sort_key\<close> is a stable sort into ascending order, here
  of the negated balance. \<^verbatim>\<open>users[:limit]\<close> drops from the end when the limit is negative.
\<close>

record entry =
  lb_user_id :: user_id
  lb_balance :: int
  lb_total_bet :: int
  lb_total_won :: int
  lb_games_played :: int

definition make_entry :: "user_id \<times> account \<Rightarrow> entry" where
  "make_entry p =
     \<lparr>lb_user_id = fst p, lb_balance = balance (snd p), lb_total_bet = total_bet (snd p),
      lb_total_won = total_won (snd p), lb_games_played = games_played (snd p)\<rparr>"

definition slice_to :: "int \<Rightarrow> 'a list \<Rightarrow> 'a list" where
  "slice_to limit xs =
     (if limit \<ge> 0 then take (nat limit) xs else take (length xs - nat (- limit)) xs)"

definition get_leaderboard :: "int \<Rightarrow> database \<Rightarrow> entry list" where
  "get_leaderboard limit db =
     slice_to limit (sort_key (\<lambda>e. - lb_balance e) (map make_entry (users db)))"

fun rank_scan :: "nat \<Rightarrow> entry list \<Rightarrow> user_id \<Rightarrow> nat option" where
  "rank_scan i [] uid = None"
| "rank_scan i (user # rest) uid =
     (if lb_user_id user = uid then Some (i + 1) else rank_scan (i + 1) rest uid)"

definition get_user_rank :: "database \<Rightarrow> user_id \<Rightarrow> nat" where
  "get_user_rank db uid =
     (let leaderboard = get_leaderboard 1000 db in
      case rank_scan 0 leaderboard uid of
        Some r \<Rightarrow> r
      | None \<Rightarrow> length leaderboard + 1)"

text \<open>
  The position of an account in the full ordering by balance, highest first, ties in
  the order of the dictionary: one more than the number of accounts that come before it.
\<close>

definition position_spec :: "(user_id \<times> account) list \<Rightarrow> user_id \<Rightarrow> nat" where
  "position_spec us uid =
     (case map_of us uid of
        None \<Rightarrow> 0
      | Some a \<Rightarrow>
          1 + length (filter (\<lambda>p. balance (snd p) > balance a) us)
            + length (filter (\<lambda>p. balance (snd p) = balance a)
                        (takeWhile (\<lambda>p. fst p \<noteq> uid) us)))"

section \<open>The rate limiter (utils/rate\_limiter.py)\<close>

text \<open>
  \<^verbatim>\<open>user_cooldowns\<close> is a \<^verbatim>\<open>defaultdict(dict)\<close>: reading a missing user inserts an
  empty dictionary for it. \<^verbatim>\<open>time.time()\<close> is a parameter, in seconds.
\<close>

record rate_limiter =
  user_cooldowns :: "(user_id \<times> (string \<times> timestamp) list) list"
  cooldowns :: "(string \<times> int) list"

definition init_rate_limiter :: rate_limiter where
  "init_rate_limiter =
     \<lparr>user_cooldowns = [],
      cooldowns = [(''game'', 3), (''balance'', 5), (''daily'', 86400),
                   (''leaderboard'', 10), (''stats'', 5)]\<rparr>"

definition touch_user :: "user_id \<Rightarrow> rate_limiter \<Rightarrow> rate_limiter" where
  "touch_user uid rl =
     (case map_of (user_cooldowns rl) uid of
        None \<Rightarrow> rl\<lparr>user_cooldowns := user_cooldowns rl @ [(uid, [])]\<rparr>
      | Some d \<Rightarrow> rl)"

definition user_actions :: "user_id \<Rightarrow> rate_limiter \<Rightarrow> (string \<times> timestamp) list" where
  "user_actions uid rl = (case map_of (user_cooldowns rl) uid of None \<Rightarrow> [] | Some d \<Rightarrow> d)"

definition record_action :: "user_id \<Rightarrow> string \<Rightarrow> timestamp \<Rightarrow> rate_limiter \<Rightarrow> rate_limiter" where
  "record_action uid action t rl =
     rl\<lparr>user_cooldowns :=
          AList.update uid (AList.update action t (user_actions uid rl)) (user_cooldowns rl)\<rparr>"

definition check_rate_limit ::
  "timestamp \<Rightarrow> user_id \<Rightarrow> string \<Rightarrow> rate_limiter \<Rightarrow> bool \<times> rate_limiter" where
  "check_rate_limit current_time uid action rl =
     (case map_of (cooldowns rl) action of
        None \<Rightarrow> (True, rl)
      | Some cooldown \<Rightarrow>
          (let rl' = touch_user uid rl in
           case map_of (user_actions uid rl') action of
             None \<Rightarrow> (True, record_action uid action current_time rl')
           | Some last_action_time \<Rightarrow>
               if current_time - last_action_time < real_of_int cooldown
               then (False, rl')
               else (True, record_action uid action current_time rl')))"

definition set_custom_cooldown :: "string \<Rightarrow> int \<Rightarrow> rate_limiter \<Rightarrow> rate_limiter" where
  "set_custom_cooldown action seconds rl =
     rl\<lparr>cooldowns := AList.update action seconds (cooldowns rl)\<rparr>"

definition cleanup_old_entries :: "timestamp \<Rightarrow> int \<Rightarrow> rate_limiter \<Rightarrow> rate_limiter" where
  "cleanup_old_entries current_time max_age_hours rl =
     (let max_age_seconds = max_age_hours * 3600;
          swept = map (\<lambda>p. (fst p,
                    filter (\<lambda>q. \<not> current_time - snd q > real_of_int max_age_seconds) (snd p)))
                    (user_cooldowns rl)
      in rl\<lparr>user_cooldowns := filter (\<lambda>p. snd p \<noteq> []) swept\<rparr>)"


section \<open>The blackjack session engine (games/blackjack.py)\<close>

datatype phase = Playing | Finished

datatype result = Push | Player_blackjack | Dealer_blackjack | Player_bust | Dealer_bust
  | Player_wins | Dealer_wins

text \<open>
  The dictionary \<^verbatim>\<open>game_state\<close> of one round. \<^verbatim>\<open>deck\<close> is the Python list;
  \<^verbatim>\<open>deck.pop()\<close> takes its last element and raises \<^verbatim>\<open>IndexError\<close> on the empty list.
\<close>

record game =
  game_id :: string
  user_id :: user_id
  bet :: int
  deck :: "card list"
  player_hand :: "card list"
  dealer_hand :: "card list"
  game_state :: phase
  result :: "result option"

record blackjack_game =
  db :: database
  active_games :: "(string \<times> game) list"

datatype reply = Game_not_found | View game

definition on_db :: "(database, 'a) prog \<Rightarrow> (blackjack_game, 'a) prog" where
  "on_db m bj = (case m (db bj) of (r, d) \<Rightarrow> (r, bj\<lparr>db := d\<rparr>))"

definition pop :: "'a list \<Rightarrow> ('a \<times> 'a list) option" where
  "pop xs = (if xs = [] then None else Some (last xs, butlast xs))"

text \<open>
  \<^verbatim>\<open>int(bet * 2.5)\<close> and \<^verbatim>\<open>int(bet * 1.5)\<close>: the product is a float, \<^verbatim>\<open>int\<close> drops
  its fraction towards zero. The product is exact for every stake below \<open>2\<^sup>5\<^sup>0\<close>.
\<close>

definition int_of_halves :: "int \<Rightarrow> int" where
  "int_of_halves n = (if n \<ge> 0 then n div 2 else - ((- n) div 2))"

definition store_game :: "string \<Rightarrow> game \<Rightarrow> (blackjack_game, unit) prog" where
  "store_game gid g bj =
     return () (bj\<lparr>active_games := AList.update gid g (active_games bj)\<rparr>)"

definition delete_game :: "string \<Rightarrow> (blackjack_game, unit) prog" where
  "delete_game gid bj = return () (bj\<lparr>active_games := AList.delete gid (active_games bj)\<rparr>)"

text \<open>The four \<^verbatim>\<open>deck.pop()\<close> of \<^verbatim>\<open>play\<close>: two cards to the player, then two to the dealer.\<close>

definition deal :: "card list \<Rightarrow> (blackjack_game, card list \<times> card list \<times> card list) prog" where
  "deal d0 =
     (case pop d0 of None \<Rightarrow> raise IndexError | Some (p1, d1) \<Rightarrow>
     (case pop d1 of None \<Rightarrow> raise IndexError | Some (p2, d2) \<Rightarrow>
     (case pop d2 of None \<Rightarrow> raise IndexError | Some (q1, d3) \<Rightarrow>
     (case pop d3 of None \<Rightarrow> raise IndexError | Some (q2, d4) \<Rightarrow>
        return ([p1, p2], [q1, q2], d4)))))"

text \<open>
  \<^verbatim>\<open>play\<close>. The identifier \<^verbatim>\<open>uuid.uuid4()\<close> and the shuffled deck of \<^verbatim>\<open>create_deck\<close>
  are parameters. The value returned is the round's dictionary, which
  \<^verbatim>\<open>_format_game_result\<close> only renders.
\<close>

definition play ::
  "timestamp \<Rightarrow> string \<Rightarrow> card list \<Rightarrow> user_id \<Rightarrow> int \<Rightarrow> (blackjack_game, game) prog" where
  "play now new_id shuffled uid stake =
     bind (on_db (subtract_balance now uid stake)) (\<lambda>_.
     bind (deal shuffled) (\<lambda>dealt.
       case dealt of (player, dealer, rest) \<Rightarrow>
       let player_bj = is_blackjack player;
           dealer_bj = is_blackjack dealer;
           g = \<lparr>game_id = new_id, user_id = uid, bet = stake, deck = rest,
                player_hand = player, dealer_hand = dealer,
                game_state = Playing, result = None\<rparr>
       in
       bind (if player_bj \<and> dealer_bj then
               bind (on_db (add_balance now uid stake)) (\<lambda>_.
               return (g\<lparr>game_state := Finished, result := Some Push\<rparr>))
             else if player_bj then
               bind (on_db (add_balance now uid (int_of_halves (5 * stake)))) (\<lambda>_.
               return (g\<lparr>game_state := Finished, result := Some Player_blackjack\<rparr>))
             else if dealer_bj then
               return (g\<lparr>game_state := Finished, result := Some Dealer_blackjack\<rparr>)
             else return g) (\<lambda>g.
       bind (if game_state g = Playing then store_game new_id g else return ()) (\<lambda>_.
       bind (on_db (update_stats now uid ''blackjack_played'' 1)) (\<lambda>_.
       return g)))))"

definition finish_game :: "timestamp \<Rightarrow> string \<Rightarrow> (blackjack_game, unit) prog" where
  "finish_game now gid bj =
     (case map_of (active_games bj) gid of
        None \<Rightarrow> return () bj
      | Some g \<Rightarrow>
          bind (if result g \<in> {Some Player_blackjack, Some Player_wins, Some Dealer_bust} then
                  bind (on_db (update_stats now (user_id g) ''blackjack_won'' 1)) (\<lambda>_.
                  on_db (update_stats now (user_id g) ''total_winnings''
                    (if result g \<noteq> Some Player_blackjack then bet g
                     else int_of_halves (3 * bet g))))
                else if result g \<in> {Some Dealer_blackjack, Some Dealer_wins, Some Player_bust} then
                  on_db (update_stats now (user_id g) ''total_losses'' (bet g))
                else return ())
            (\<lambda>_. delete_game gid) bj)"

text \<open>
  \<^verbatim>\<open>hit\<close> and \<^verbatim>\<open>stand\<close> change the dictionary that the table holds, so every
  assignment to \<^verbatim>\<open>game[...]\<close> is a write to the table.
\<close>

definition hit :: "timestamp \<Rightarrow> string \<Rightarrow> (blackjack_game, reply) prog" where
  "hit now gid bj =
     (case map_of (active_games bj) gid of
        None \<Rightarrow> return Game_not_found bj
      | Some g \<Rightarrow>
          (case pop (deck g) of
             None \<Rightarrow> raise IndexError bj
           | Some (c, rest) \<Rightarrow>
               (let g1 = g\<lparr>deck := rest, player_hand := player_hand g @ [c]\<rparr> in
                bind (store_game gid g1) (\<lambda>_.
                if hand_value (player_hand g1) > 21 then
                  (let g2 = g1\<lparr>game_state := Finished, result := Some Player_bust\<rparr> in
                   bind (store_game gid g2) (\<lambda>_.
                   bind (finish_game now gid) (\<lambda>_.
                   return (View g2))))
                else return (View g1)) bj)))"

text \<open>
  The dealer's loop of \<^verbatim>\<open>stand\<close>: the flag is false when the deck ran out, where
  \<^verbatim>\<open>deck.pop()\<close> raises.
\<close>

function dealer_turn :: "card list \<Rightarrow> card list \<Rightarrow> bool \<times> card list \<times> card list" where
  "dealer_turn d hand =
     (if should_dealer_hit hand then
        (case pop d of
           None \<Rightarrow> (False, d, hand)
         | Some (c, rest) \<Rightarrow> dealer_turn rest (hand @ [c]))
      else (True, d, hand))"
  by pat_completeness auto
termination
  by (relation "measure (\<lambda>p. length (fst p))") (auto simp: pop_def split: if_splits)

definition stand :: "timestamp \<Rightarrow> string \<Rightarrow> (blackjack_game, reply) prog" where
  "stand now gid bj =
     (case map_of (active_games bj) gid of
        None \<Rightarrow> return Game_not_found bj
      | Some g \<Rightarrow>
          (case dealer_turn (deck g) (dealer_hand g) of (drawn, rest, dealer) \<Rightarrow>
             (let g1 = g\<lparr>deck := rest, dealer_hand := dealer\<rparr> in
              bind (store_game gid g1) (\<lambda>_.
              if \<not> drawn then raise IndexError
              else
                (let player_value = hand_value (player_hand g1);
                     dealer_value = hand_value (dealer_hand g1)
                 in
                 bind (if dealer_value > 21 then
                         bind (on_db (add_balance now (user_id g1) (bet g1 * 2))) (\<lambda>_.
                         return (g1\<lparr>result := Some Dealer_bust\<rparr>))
                       else if player_value > dealer_value then
                         bind (on_db (add_balance now (user_id g1) (bet g1 * 2))) (\<lambda>_.
                         return (g1\<lparr>result := Some Player_wins\<rparr>))
                       else if dealer_value > player_value then
                         return (g1\<lparr>result := Some Dealer_wins\<rparr>)
                       else
                         bind (on_db (add_balance now (user_id g1) (bet g1))) (\<lambda>_.
                         return (g1\<lparr>result := Some Push\<rparr>))) (\<lambda>g2.
                 (let g3 = g2\<lparr>game_state := Finished\<rparr> in
                  bind (store_game gid g3) (\<lambda>_.
                  bind (finish_game now gid) (\<lambda>_.
                  return (View g3))))))) bj)))"

section \<open>The command handler of a blackjack round (bot.py)\<close>

record casino_bot =
  blackjack_game :: blackjack_game
  rate_limiter :: rate_limiter

datatype response = Wait_message | Minimum_bet_message | Maximum_bet_message
  | Insufficient_balance_message int | Game_embed game

definition on_game :: "(blackjack_game, 'a) prog \<Rightarrow> (casino_bot, 'a) prog" where
  "on_game m casino =
     (case m (blackjack_game casino) of (r, g) \<Rightarrow> (r, casino\<lparr>blackjack_game := g\<rparr>))"

definition blackjack_command ::
  "timestamp \<Rightarrow> string \<Rightarrow> card list \<Rightarrow> user_id \<Rightarrow> int \<Rightarrow> (casino_bot, response) prog" where
  "blackjack_command now new_id shuffled uid stake casino =
     (case check_rate_limit now uid ''game'' (rate_limiter casino) of (allowed, rl) \<Rightarrow>
        (if \<not> allowed then return Wait_message
         else if stake < 10 then return Minimum_bet_message
         else if stake > 10000 then return Maximum_bet_message
         else bind (on_game (on_db (get_user now uid))) (\<lambda>user_data.
              if balance user_data < stake
              then return (Insufficient_balance_message (balance user_data))
              else bind (on_game (play now new_id shuffled uid stake)) (\<lambda>g.
                   return (Game_embed g))))
          (casino\<lparr>rate_limiter := rl\<rparr>))"


section \<open>Well-formed dictionaries\<close>

text \<open>
  A Python dictionary holds a key once. An association list that models one has
  distinct keys; the rate limiter's table is a dictionary of dictionaries.
\<close>

definition dict_ok :: "('k \<times> 'v) list \<Rightarrow> bool" where
  "dict_ok xs = distinct (map fst xs)"

definition limiter_ok :: "rate_limiter \<Rightarrow> bool" where
  "limiter_ok rl \<longleftrightarrow>
     dict_ok (user_cooldowns rl) \<and> list_all (\<lambda>p. dict_ok (snd p)) (user_cooldowns rl)"

text \<open>The test of the sweep: an entry stays unless it is older than the horizon.\<close>

definition fresh_enough :: "timestamp \<Rightarrow> int \<Rightarrow> string \<times> timestamp \<Rightarrow> bool" where
  "fresh_enough t h q \<longleftrightarrow> \<not> t - snd q > real_of_int (h * 3600)"

section \<open>Statements about the ledger\<close>

text \<open>The account of a user as \<^verbatim>\<open>get_user\<close> leaves it: created, or with a new time stamp.\<close>

definition touched :: "timestamp \<Rightarrow> user_id \<Rightarrow> database \<Rightarrow> account" where
  "touched now uid d =
     (case map_of (users d) uid of
        None \<Rightarrow> new_account now
      | Some a \<Rightarrow> a\<lparr>last_played := now\<rparr>)"

text \<open>A sequence of debits and credits, run one after the other.\<close>

datatype ledger_op = Debit user_id int | Credit user_id int

fun apply_op :: "timestamp \<Rightarrow> ledger_op \<Rightarrow> (database, unit) prog" where
  "apply_op now (Debit uid amount) = bind (subtract_balance now uid amount) (\<lambda>_. return ())"
| "apply_op now (Credit uid amount) = add_balance now uid amount"

fun run_ops :: "timestamp \<Rightarrow> ledger_op list \<Rightarrow> (database, unit) prog" where
  "run_ops now [] = return ()"
| "run_ops now (x # xs) = bind (apply_op now x) (\<lambda>_. run_ops now xs)"

fun credit_ok :: "ledger_op \<Rightarrow> bool" where
  "credit_ok (Debit uid amount) = True"
| "credit_ok (Credit uid amount) = (amount \<ge> 0)"

definition balances_nonneg :: "database \<Rightarrow> bool" where
  "balances_nonneg d = list_all (\<lambda>p. balance (snd p) \<ge> 0) (users d)"

section \<open>Decks and tables of the examples\<close>

text \<open>
  \<^verbatim>\<open>create_deck\<close> builds the 52 cards suit by suit and shuffles them. \<open>new_deck\<close> is
  that list before the shuffle; \<open>ace_last_deck\<close> is the shuffle of it that moves the ace
  of clubs to the end, where \<^verbatim>\<open>deck.pop()\<close> draws first.
\<close>

definition suits :: "suit list" where
  "suits = [Spades, Hearts, Diamonds, Clubs]"

definition ranks :: "rank list" where
  "ranks = [Ace, Two, Three, Four, Five, Six, Seven, Eight, Nine, Ten, Jack, Queen, King]"

definition new_deck :: "card list" where
  "new_deck = concat (map (\<lambda>s. map (\<lambda>r. \<lparr>rank = r, suit = s\<rparr>) ranks) suits)"

definition ace_last_deck :: "card list" where
  "ace_last_deck =
     remove1 \<lparr>rank = Ace, suit = Clubs\<rparr> new_deck @ [\<lparr>rank = Ace, suit = Clubs\<rparr>]"

text \<open>A \<^verbatim>\<open>BlackjackGame\<close> as its constructor makes it, around a given store.\<close>

definition table :: "database \<Rightarrow> blackjack_game" where
  "table d = \<lparr>db = d, active_games = []\<rparr>"

text \<open>What a call returned, and what an account holds.\<close>

fun returned :: "'a outcome \<Rightarrow> 'a option" where
  "returned (Returns v) = Some v"
| "returned (Raises e) = None"
| "returned Blocks = None"

definition balance_of :: "database \<Rightarrow> user_id \<Rightarrow> int option" where
  "balance_of d uid = map_option balance (map_of (users d) uid)"

definition stat_of :: "database \<Rightarrow> user_id \<Rightarrow> string \<Rightarrow> int option" where
  "stat_of d uid name =
     (case map_of (users d) uid of None \<Rightarrow> None | Some a \<Rightarrow> map_of (stats a) name)"

text \<open>
  The state after user 1, new to the store, has staked 100 on \<open>new_deck\<close> and the round
  is open, the store's lock being \<open>l\<close>; and a table where user 1 holds 300.
\<close>

definition round_in_play :: "lock \<Rightarrow> blackjack_game" where
  "round_in_play l =
     \<lparr>db = init_database
        \<lparr>users := [(1, (new_account 0)
           \<lparr>balance := 9900, total_bet := 100,
              stats := AList.update ''blackjack_played'' 1 (stats (new_account 0))\<rparr>)],
         lock := l\<rparr>,
      active_games =
        [(''g1'', \<lparr>game_id = ''g1'', user_id = 1, bet = 100, deck = take 48 new_deck,
           player_hand = [\<lparr>rank = King, suit = Clubs\<rparr>, \<lparr>rank = Queen, suit = Clubs\<rparr>],
           dealer_hand = [\<lparr>rank = Jack, suit = Clubs\<rparr>, \<lparr>rank = Ten, suit = Clubs\<rparr>],
           game_state = Playing, result = None\<rparr>)]\<rparr>"

definition short_of_funds :: "lock \<Rightarrow> blackjack_game" where
  "short_of_funds l =
     \<lparr>db = init_database\<lparr>users := [(1, (new_account 0)\<lparr>balance := 300\<rparr>)], lock := l\<rparr>,
      active_games = []\<rparr>"

section \<open>Statements about the table of rounds\<close>

text \<open>No round that the table holds is finished.\<close>

definition no_finished :: "blackjack_game \<Rightarrow> bool" where
  "no_finished bj = list_all (\<lambda>p. game_state (snd p) \<noteq> Finished) (active_games bj)"

text \<open>
  The calls of the class, run one after the other on the same object, whatever each of
  them comes to: a call that does not return leaves the object as it was when the call
  stopped.
\<close>

datatype call = Play timestamp string "card list" user_id int | Hit timestamp string
  | Stand timestamp string

fun run_call :: "call \<Rightarrow> blackjack_game \<Rightarrow> blackjack_game" where
  "run_call (Play now new_id shuffled uid stake) bj = snd (play now new_id shuffled uid stake bj)"
| "run_call (Hit now gid) bj = snd (hit now gid bj)"
| "run_call (Stand now gid) bj = snd (stand now gid bj)"

definition run_calls :: "call list \<Rightarrow> blackjack_game \<Rightarrow> blackjack_game" where
  "run_calls cs bj = foldl (\<lambda>s c. run_call c s) bj cs"

section \<open>Hand values\<close>

lemma card_values_spec: "card_values r = rank_value_spec r"
  by (cases r) simp_all

lemma count_card_step:
  "count_card (v, a) c = (v + rank_value_spec (rank c), a + (if rank c = Ace then 1 else 0))"
  by (cases "rank c") (simp_all add: count_card_def card_value_def)

lemma foldl_count_card:
  "foldl count_card (v, a) hand =
     (v + count_total (initial_count hand), a + high_aces (initial_count hand))"
proof (induction hand arbitrary: v a)
  case Nil
  show ?case by (simp add: count_total_def initial_count_def high_aces_def)
next
  case (Cons c hand)
  have ace: "rank_value_spec (rank c) = 11 \<longleftrightarrow> rank c = Ace"
    by (cases "rank c") simp_all
  show ?case
    by (simp add: count_card_step Cons.IH count_total_def initial_count_def high_aces_def ace)
qed

lemma count_total_recount_one_ace:
  "0 < high_aces cs \<Longrightarrow> count_total (recount_one_ace cs) = count_total cs - 10"
  by (induction cs) (auto simp: high_aces_def count_total_def split: if_splits)

lemma high_aces_recount_one_ace:
  "0 < high_aces cs \<Longrightarrow> high_aces (recount_one_ace cs) = high_aces cs - 1"
  by (induction cs) (auto simp: high_aces_def split: if_splits)

lemma demote_aces_recount:
  "high_aces cs = n \<Longrightarrow> demote_aces (count_total cs) n = count_total (recount cs)"
proof (induction n arbitrary: cs)
  case 0
  then show ?case by (subst recount.simps) simp
next
  case (Suc n)
  then have pos: "0 < high_aces cs" by simp
  show ?case
  proof (cases "count_total cs > 21")
    case True
    have "demote_aces (count_total cs) (Suc n) = demote_aces (count_total (recount_one_ace cs)) n"
      using True pos by (simp add: count_total_recount_one_ace)
    also have "\<dots> = count_total (recount (recount_one_ace cs))"
      using Suc.prems pos by (intro Suc.IH) (simp add: high_aces_recount_one_ace)
    also have "\<dots> = count_total (recount cs)"
      using True pos by (subst (2) recount.simps) simp
    finally show ?thesis .
  next
    case False
    then show ?thesis by (subst recount.simps) simp
  qed
qed

lemma hand_value_refines: "hand_value hand = hand_value_spec hand"
  by (simp add: hand_value_def hand_value_spec_def foldl_count_card demote_aces_recount)

lemmas hand_eval = hand_value_def count_card_def card_value_def is_blackjack_def

text \<open>
  C6. The value \<^verbatim>\<open>hand_value\<close> computes is the one the specification describes: the
  sum of the rank values with every ace as 11, and then, while the total is over 21 and
  an ace is still counted as 11, one such ace counted as 1. Whatever the suits, an ace,
  an ace and a nine make 21, three aces and an eight make 21, a king and a queen make
  20, and an ace with a king is a natural blackjack.
\<close>

theorem hand_value_as_specified:
  "hand_value hand = hand_value_spec hand
   \<and> hand_value [\<lparr>rank = Ace, suit = s1\<rparr>, \<lparr>rank = Ace, suit = s2\<rparr>, \<lparr>rank = Nine, suit = s3\<rparr>] = 21
   \<and> hand_value [\<lparr>rank = Ace, suit = s1\<rparr>, \<lparr>rank = Ace, suit = s2\<rparr>, \<lparr>rank = Ace, suit = s3\<rparr>,
       \<lparr>rank = Eight, suit = s4\<rparr>] = 21
   \<and> hand_value [\<lparr>rank = King, suit = s1\<rparr>, \<lparr>rank = Queen, suit = s2\<rparr>] = 20
   \<and> is_blackjack [\<lparr>rank = Ace, suit = s1\<rparr>, \<lparr>rank = King, suit = s2\<rparr>]"
proof -
  have "hand_value hand = hand_value_spec hand"
    by (rule hand_value_refines)
  moreover have "hand_value [\<lparr>rank = Ace, suit = s1\<rparr>, \<lparr>rank = Ace, suit = s2\<rparr>,
      \<lparr>rank = Nine, suit = s3\<rparr>] = 21"
    by (simp add: hand_eval)
  moreover have "hand_value [\<lparr>rank = Ace, suit = s1\<rparr>, \<lparr>rank = Ace, suit = s2\<rparr>,
      \<lparr>rank = Ace, suit = s3\<rparr>, \<lparr>rank = Eight, suit = s4\<rparr>] = 21"
    by (simp add: hand_eval)
  moreover have "hand_value [\<lparr>rank = King, suit = s1\<rparr>, \<lparr>rank = Queen, suit = s2\<rparr>] = 20"
    by (simp add: hand_eval)
  moreover have "is_blackjack [\<lparr>rank = Ace, suit = s1\<rparr>, \<lparr>rank = King, suit = s2\<rparr>]"
    by (simp add: hand_eval)
  ultimately show ?thesis by blast
qed

section \<open>The dealer policy\<close>

lemma rank_value_spec_pos: "0 < rank_value_spec r"
  by (cases r) simp_all

lemma raw_total_simps [simp]:
  "raw_total [] = 0"
  "raw_total (c # hand) = rank_value_spec (rank c) + raw_total hand"
  by (simp_all add: raw_total_def count_total_def initial_count_def)

lemma aces_simps [simp]:
  "aces [] = 0"
  "aces (c # hand) = (if rank c = Ace then Suc (aces hand) else aces hand)"
  by (cases "rank c"; simp add: aces_def high_aces_def initial_count_def)+

lemma raw_total_nonneg: "0 \<le> raw_total hand"
  by (induction hand) (simp_all add: less_imp_le [OF rank_value_spec_pos])

lemma hand_value_demote: "hand_value hand = demote_aces (raw_total hand) (aces hand)"
  by (simp add: hand_value_def foldl_count_card raw_total_def aces_def)

lemma hard_total_raw: "hard_total hand = raw_total hand - 10 * int (aces hand)"
  by (induction hand) (simp_all add: hard_total_def)

lemma soft_scan_step:
  "soft_scan (t, f) c =
     (t + rank_value_spec (rank c), (if rank c = Ace \<and> t + 11 \<le> 17 then True else f))"
  by (cases "rank c") (simp_all add: soft_scan_def card_value_def)

lemma soft_scan_total: "fst (foldl soft_scan (t, f) hand) = t + raw_total hand"
proof (induction hand arbitrary: t f)
  case Nil
  show ?case by simp
next
  case (Cons c hand)
  show ?case
    by (simp add: soft_scan_step Cons.IH)
qed

lemma soft_scan_flag:
  "t + raw_total hand \<le> 17 \<Longrightarrow>
   snd (foldl soft_scan (t, f) hand) = (f \<or> 0 < aces hand)"
proof (induction hand arbitrary: t f)
  case Nil
  show ?case by simp
next
  case (Cons c hand)
  have nonneg: "0 \<le> raw_total hand" by (rule raw_total_nonneg)
  show ?case
  proof (cases "rank c = Ace")
    case True
    with Cons.prems nonneg have "t + 11 \<le> 17" by simp
    moreover from True Cons.prems have "(t + 11) + raw_total hand \<le> 17" by simp
    ultimately show ?thesis
      using True Cons.IH [of "t + 11" True] by (simp add: soft_scan_step)
  next
    case False
    with Cons.prems have "(t + rank_value_spec (rank c)) + raw_total hand \<le> 17"
      by simp
    with False Cons.IH [of "t + rank_value_spec (rank c)" f] show ?thesis
      by (simp add: soft_scan_step)
  qed
qed

text \<open>
  What \<^verbatim>\<open>should_dealer_hit\<close> decides: at 17 it draws when the hand holds an ace and
  the sum with every ace as 11 is 17 itself, that is, when its only ace counts 11.
\<close>

lemma should_dealer_hit_iff:
  "should_dealer_hit hand \<longleftrightarrow>
     hand_value hand < 17 \<or> (hand_value hand = 17 \<and> raw_total hand = 17 \<and> 0 < aces hand)"
proof -
  obtain t f where scan: "foldl soft_scan (0, False) hand = (t, f)"
    by (cases "foldl soft_scan (0, False) hand")
  from soft_scan_total [of 0 False hand] scan have t: "t = raw_total hand" by simp
  have "f = (0 < aces hand)" if "raw_total hand = 17"
    using soft_scan_flag [of 0 hand False] scan that by simp
  with t scan show ?thesis
    by (auto simp: should_dealer_hit_def Let_def)
qed

lemma dealer_draws_spec_iff:
  "dealer_draws_spec hand \<longleftrightarrow>
     hand_value hand < 17 \<or> (hand_value hand = 17 \<and> hard_total hand \<noteq> 17)"
  by (simp add: dealer_draws_spec_def hand_value_refines)

text \<open>
  The code never draws where the policy of the specification stops, and the two agree
  on every hand with at most one ace.
\<close>

lemma should_dealer_hit_sound: "should_dealer_hit hand \<Longrightarrow> dealer_draws_spec hand"
  by (auto simp: should_dealer_hit_iff dealer_draws_spec_iff hard_total_raw)

lemma should_dealer_hit_one_ace:
  assumes "aces hand \<le> 1"
  shows "should_dealer_hit hand = dealer_draws_spec hand"
proof (cases "aces hand = 0")
  case True
  then show ?thesis
    by (auto simp: should_dealer_hit_iff dealer_draws_spec_iff hard_total_raw hand_value_demote)
next
  case False
  with assms have one: "aces hand = Suc 0" by simp
  then show ?thesis
    by (auto simp: should_dealer_hit_iff dealer_draws_spec_iff hard_total_raw hand_value_demote
        split: if_splits)
qed

lemmas dealer_eval = should_dealer_hit_def soft_scan_def hand_eval

text \<open>
  C5. The dealer's hand ace, ace, five is worth 17 with one ace as 11; with every ace
  as 1 it is worth 7, so the 17 is soft and the policy of the specification draws.
  \<^verbatim>\<open>should_dealer_hit\<close> answers no: it compares 17 with the sum that counts every ace
  as 11, which is 27 here. On ace, six it draws and on ten, seven it stops.
\<close>

theorem should_dealer_hit_two_aces:
  "hand_value [\<lparr>rank = Ace, suit = s1\<rparr>, \<lparr>rank = Ace, suit = s2\<rparr>, \<lparr>rank = Five, suit = s3\<rparr>] = 17
   \<and> hard_total [\<lparr>rank = Ace, suit = s1\<rparr>, \<lparr>rank = Ace, suit = s2\<rparr>, \<lparr>rank = Five, suit = s3\<rparr>] = 7
   \<and> dealer_draws_spec [\<lparr>rank = Ace, suit = s1\<rparr>, \<lparr>rank = Ace, suit = s2\<rparr>, \<lparr>rank = Five, suit = s3\<rparr>]
   \<and> \<not> should_dealer_hit [\<lparr>rank = Ace, suit = s1\<rparr>, \<lparr>rank = Ace, suit = s2\<rparr>, \<lparr>rank = Five, suit = s3\<rparr>]
   \<and> should_dealer_hit [\<lparr>rank = Ace, suit = s1\<rparr>, \<lparr>rank = Six, suit = s2\<rparr>]
   \<and> \<not> should_dealer_hit [\<lparr>rank = Ten, suit = s1\<rparr>, \<lparr>rank = Seven, suit = s2\<rparr>]"
proof -
  let ?h = "[\<lparr>rank = Ace, suit = s1\<rparr>, \<lparr>rank = Ace, suit = s2\<rparr>, \<lparr>rank = Five, suit = s3\<rparr>]"
  have v: "hand_value ?h = 17"
    by (simp add: hand_eval)
  have h: "hard_total ?h = 7"
    by (simp add: hard_total_def)
  have "dealer_draws_spec ?h"
    using v h by (simp add: dealer_draws_spec_def hand_value_refines [symmetric])
  moreover have "\<not> should_dealer_hit ?h"
    by (simp add: dealer_eval)
  moreover have "should_dealer_hit [\<lparr>rank = Ace, suit = s1\<rparr>, \<lparr>rank = Six, suit = s2\<rparr>]"
    by (simp add: dealer_eval)
  moreover have "\<not> should_dealer_hit [\<lparr>rank = Ten, suit = s1\<rparr>, \<lparr>rank = Seven, suit = s2\<rparr>]"
    by (simp add: dealer_eval)
  ultimately show ?thesis using v h by blast
qed

section \<open>The sweep of the rate limiter\<close>

lemma user_actions_touch [simp]: "user_actions uid (touch_user uid rl) = user_actions uid rl"
  by (cases "map_of (user_cooldowns rl) uid")
    (simp_all add: user_actions_def touch_user_def map_add_def)

lemma cooldowns_touch [simp]: "cooldowns (touch_user uid rl) = cooldowns rl"
  by (simp add: touch_user_def split: option.splits)

lemma cooldowns_cleanup [simp]: "cooldowns (cleanup_old_entries t h rl) = cooldowns rl"
  by (simp add: cleanup_old_entries_def Let_def)

lemma map_of_swept:
  "distinct (map fst xs) \<Longrightarrow>
   (case map_of (filter (\<lambda>p. snd p \<noteq> []) (map (\<lambda>p. (fst p, filter P (snd p))) xs)) uid of
      None \<Rightarrow> [] | Some d \<Rightarrow> d) =
   filter P (case map_of xs uid of None \<Rightarrow> [] | Some d \<Rightarrow> d)"
proof (induction xs)
  case Nil
  show ?case by simp
next
  case (Cons p xs)
  show ?case
  proof (cases "fst p = uid")
    case True
    with Cons.prems have "uid \<notin> fst ` set xs" by auto
    then have "map_of (filter (\<lambda>p. snd p \<noteq> []) (map (\<lambda>p. (fst p, filter P (snd p))) xs)) uid = None"
      by (force simp: map_of_eq_None_iff)
    with True show ?thesis by (cases p) simp
  next
    case False
    with Cons show ?thesis by (cases p) simp
  qed
qed

lemma user_actions_cleanup:
  "limiter_ok rl \<Longrightarrow>
   user_actions uid (cleanup_old_entries t h rl) = filter (fresh_enough t h) (user_actions uid rl)"
  unfolding user_actions_def cleanup_old_entries_def limiter_ok_def dict_ok_def Let_def
  using map_of_swept [of "user_cooldowns rl" "fresh_enough t h" uid]
  by (simp add: fresh_enough_def [abs_def])

lemma map_of_filter_dict:
  "distinct (map fst d) \<Longrightarrow>
   map_of (filter P d) a =
     (case map_of d a of None \<Rightarrow> None | Some v \<Rightarrow> if P (a, v) then Some v else None)"
proof (induction d)
  case Nil
  show ?case by simp
next
  case (Cons q d)
  show ?case
  proof (cases "fst q = a")
    case True
    with Cons.prems have "a \<notin> fst ` set d" by auto
    then have "map_of (filter P d) a = None"
      by (force simp: map_of_eq_None_iff)
    with True show ?thesis by (cases q) auto
  next
    case False
    with Cons show ?thesis by (cases q) simp
  qed
qed

lemma dict_ok_user_actions: "limiter_ok rl \<Longrightarrow> distinct (map fst (user_actions uid rl))"
  by (auto simp: limiter_ok_def dict_ok_def user_actions_def list_all_iff
      split: option.splits dest: map_of_SomeD)

lemma list_all_update:
  "list_all P xs \<Longrightarrow> P (k, v) \<Longrightarrow> list_all P (AList.update k v xs)"
  by (induction xs) auto

text \<open>
  The table of the rate limiter stays a dictionary of dictionaries under every
  operation.
\<close>

lemma limiter_ok_init: "limiter_ok init_rate_limiter"
  by (simp add: limiter_ok_def dict_ok_def init_rate_limiter_def)

lemma limiter_ok_touch: "limiter_ok rl \<Longrightarrow> limiter_ok (touch_user uid rl)"
proof (cases "map_of (user_cooldowns rl) uid")
  case None
  then have "uid \<notin> fst ` set (user_cooldowns rl)" by (simp add: map_of_eq_None_iff)
  moreover assume "limiter_ok rl"
  ultimately show ?thesis using None
    by (simp add: limiter_ok_def dict_ok_def touch_user_def)
next
  case (Some a)
  moreover assume "limiter_ok rl"
  ultimately show ?thesis by (simp add: touch_user_def)
qed

lemma limiter_ok_record:
  assumes "limiter_ok rl"
  shows "limiter_ok (record_action uid action t rl)"
proof -
  have "distinct (map fst (AList.update action t (user_actions uid rl)))"
    using assms by (simp add: distinct_update dict_ok_user_actions)
  then show ?thesis
    using assms by (simp add: limiter_ok_def dict_ok_def record_action_def distinct_update
        list_all_update)
qed

lemma limiter_ok_check:
  "limiter_ok rl \<Longrightarrow> limiter_ok (snd (check_rate_limit t uid action rl))"
  by (simp add: check_rate_limit_def Let_def limiter_ok_touch limiter_ok_record
      split: option.splits)

lemma limiter_ok_cleanup:
  assumes "limiter_ok rl"
  shows "limiter_ok (cleanup_old_entries t h rl)"
proof -
  let ?swept = "map (\<lambda>p. (fst p, filter (\<lambda>q. \<not> t - snd q > real_of_int (h * 3600)) (snd p)))
      (user_cooldowns rl)"
  have keys: "map fst ?swept = map fst (user_cooldowns rl)" by (simp add: comp_def)
  from assms have "distinct (map fst (user_cooldowns rl))"
    by (simp add: limiter_ok_def dict_ok_def)
  then have "distinct (map fst ?swept)" by (simp only: keys)
  then have "distinct (map fst (filter (\<lambda>p. snd p \<noteq> []) ?swept))"
    by (rule distinct_map_filter)
  moreover have "list_all (\<lambda>p. dict_ok (snd p)) (filter (\<lambda>p. snd p \<noteq> []) ?swept)"
    using assms
    by (auto simp: limiter_ok_def list_all_iff dict_ok_def distinct_map_filter)
  ultimately show ?thesis
    by (simp add: limiter_ok_def dict_ok_def cleanup_old_entries_def Let_def)
qed

text \<open>
  C8, as the code has it. The sweep removes an entry by its age against the horizon
  \<^verbatim>\<open>max_age_hours * 3600\<close>, whatever the cooldown of its action. Where that cooldown is
  at most the horizon (the default horizon of 24 hours with the default cooldowns), a
  sweep at time \<open>t\<close> leaves the answer of \<^verbatim>\<open>check_rate_limit\<close> at any later time
  \<open>t'\<close> as it was; an action with no cooldown is allowed either way.
\<close>

theorem cleanup_keeps_allow:
  assumes ok: "limiter_ok rl"
    and horizon: "case map_of (cooldowns rl) action of
                    None \<Rightarrow> True | Some cooldown \<Rightarrow> cooldown \<le> max_age_hours * 3600"
    and later: "t \<le> t'"
  shows "fst (check_rate_limit t' uid action (cleanup_old_entries t max_age_hours rl)) =
         fst (check_rate_limit t' uid action rl)"
proof (cases "map_of (cooldowns rl) action")
  case None
  then show ?thesis by (simp add: check_rate_limit_def)
next
  case (Some cooldown)
  with horizon have le: "cooldown \<le> max_age_hours * 3600" by simp
  let ?d = "user_actions uid rl"
  have swept: "map_of (user_actions uid (cleanup_old_entries t max_age_hours rl)) action =
      (case map_of ?d action of
         None \<Rightarrow> None
       | Some v \<Rightarrow> if fresh_enough t max_age_hours (action, v) then Some v else None)"
    using ok by (simp add: user_actions_cleanup map_of_filter_dict dict_ok_user_actions)
  show ?thesis
  proof (cases "map_of ?d action")
    case None
    with Some swept show ?thesis by (simp add: check_rate_limit_def Let_def)
  next
    case (Some last_action_time)
    show ?thesis
    proof (cases "fresh_enough t max_age_hours (action, last_action_time)")
      case True
      with Some \<open>map_of (cooldowns rl) action = Some cooldown\<close> swept show ?thesis
        by (simp add: check_rate_limit_def Let_def)
    next
      case False
      then have "t - last_action_time > real_of_int (max_age_hours * 3600)"
        by (simp add: fresh_enough_def)
      moreover have "real_of_int cooldown \<le> real_of_int (max_age_hours * 3600)"
        using le by (simp only: of_int_le_iff)
      ultimately have "\<not> t' - last_action_time < real_of_int cooldown"
        using later by linarith
      with False Some \<open>map_of (cooldowns rl) action = Some cooldown\<close> swept show ?thesis
        by (simp add: check_rate_limit_def Let_def)
    qed
  qed
qed

lemmas limiter_eval = check_rate_limit_def cleanup_old_entries_def init_rate_limiter_def
  touch_user_def user_actions_def record_action_def Let_def

theorem cleanup_keeps_allow_witness:
  "limiter_ok (init_rate_limiter\<lparr>user_cooldowns := [(1, [(''daily'', 0)])]\<rparr>)
   \<and> (86400::int) \<le> 24 * 3600 \<and> (90000::real) \<le> 90001
   \<and> fst (check_rate_limit 90001 1 ''daily''
        (cleanup_old_entries 90000 24 (init_rate_limiter\<lparr>user_cooldowns := [(1, [(''daily'', 0)])]\<rparr>)))
   \<and> user_cooldowns (cleanup_old_entries 90000 24
        (init_rate_limiter\<lparr>user_cooldowns := [(1, [(''daily'', 0)])]\<rparr>)) = []"
proof -
  let ?rl = "init_rate_limiter\<lparr>user_cooldowns := [(1, [(''daily'', 0)])]\<rparr>"
  have ok: "limiter_ok ?rl"
    by (simp add: limiter_ok_def dict_ok_def)
  have hz: "case map_of (cooldowns ?rl) ''daily'' of
              None \<Rightarrow> True | Some cooldown \<Rightarrow> cooldown \<le> 24 * 3600"
    by (simp add: init_rate_limiter_def)
  have "fst (check_rate_limit 90001 1 ''daily'' ?rl)"
    by (simp add: limiter_eval)
  with cleanup_keeps_allow [OF ok hz, of 90000 90001 1]
  have "fst (check_rate_limit 90001 1 ''daily'' (cleanup_old_entries 90000 24 ?rl))"
    by simp
  moreover have "user_cooldowns (cleanup_old_entries 90000 24 ?rl) = []"
    by (simp add: limiter_eval)
  ultimately show ?thesis using ok by simp
qed

text \<open>
  C8 as stated fails for a horizon below the cooldown: a daily claim made at time 0 is
  swept at 7200 seconds under a horizon of one hour, and the claim at 7300 seconds,
  denied before the sweep, is allowed after it.
\<close>

theorem cleanup_short_horizon_counterexample:
  "fst (check_rate_limit 7300 1 ''daily''
      (init_rate_limiter\<lparr>user_cooldowns := [(1, [(''daily'', 0)])]\<rparr>)) = False
   \<and> fst (check_rate_limit 7300 1 ''daily''
      (cleanup_old_entries 7200 1
        (init_rate_limiter\<lparr>user_cooldowns := [(1, [(''daily'', 0)])]\<rparr>))) = True"
  by (simp add: limiter_eval)

section \<open>The ledger under its lock\<close>

lemmas prog_defs = bind_def return_def raise_def lookup_user_def store_user_def

lemma relock: "lock d = l \<Longrightarrow> d\<lparr>lock := l\<rparr> = d"
  by auto

lemma touched_lock [simp]: "touched now uid (d\<lparr>lock := l\<rparr>) = touched now uid d"
  by (simp add: touched_def)

lemma with_lock_held: "lock d = Lock True \<Longrightarrow> with_lock body d = (Blocks, d)"
  by (simp add: with_lock_def)

lemma get_user_held: "lock d = Lock True \<Longrightarrow> get_user now uid d = (Blocks, d)"
  by (simp add: get_user_def with_lock_held)

lemma with_lock_get_user_first:
  "lock d = Lock held \<Longrightarrow>
   with_lock (bind (get_user now uid) f) d = (Blocks, d\<lparr>lock := Lock True\<rparr>)"
  by (cases held) (simp_all add: with_lock_def bind_def get_user_held relock)

lemma add_balance_blocks:
  "lock d = Lock held \<Longrightarrow> add_balance now uid amount d = (Blocks, d\<lparr>lock := Lock True\<rparr>)"
  by (simp add: add_balance_def with_lock_get_user_first)

lemma subtract_balance_blocks:
  "lock d = Lock held \<Longrightarrow> subtract_balance now uid amount d = (Blocks, d\<lparr>lock := Lock True\<rparr>)"
  by (simp add: subtract_balance_def with_lock_get_user_first)

lemma update_stats_blocks:
  "lock d = Lock held \<Longrightarrow> update_stats now uid name v d = (Blocks, d\<lparr>lock := Lock True\<rparr>)"
  by (simp add: update_stats_def with_lock_get_user_first)

text \<open>
  What the critical sections compute once they are entered, that is, with a lock that
  its holder may take again.
\<close>

lemma get_user_reentrant:
  "lock d = RLock n \<Longrightarrow>
   get_user now uid d =
     (Returns (touched now uid d), d\<lparr>users := AList.update uid (touched now uid d) (users d)\<rparr>)"
  by (simp add: get_user_def with_lock_def prog_defs touched_def update_conv' relock
      split: option.splits)

lemma add_balance_reentrant:
  "lock d = RLock n \<Longrightarrow>
   add_balance now uid amount d =
     (Returns (),
      d\<lparr>users := AList.update uid
           ((touched now uid d)\<lparr>balance := balance (touched now uid d) + amount\<rparr>) (users d)\<rparr>)"
  by (simp add: add_balance_def with_lock_def get_user_reentrant prog_defs update_conv' relock)

lemma subtract_balance_reentrant:
  "lock d = RLock n \<Longrightarrow>
   subtract_balance now uid amount d =
     (if amount \<le> balance (touched now uid d)
      then (Returns True,
            d\<lparr>users := AList.update uid
                 ((touched now uid d)\<lparr>balance := balance (touched now uid d) - amount,
                    total_bet := total_bet (touched now uid d) + amount\<rparr>) (users d)\<rparr>)
      else (Returns False, d\<lparr>users := AList.update uid (touched now uid d) (users d)\<rparr>))"
  by (simp add: subtract_balance_def with_lock_def get_user_reentrant prog_defs update_conv' relock)

lemma touched_nonneg: "balances_nonneg d \<Longrightarrow> 0 \<le> balance (touched now uid d)"
proof (cases "map_of (users d) uid")
  case None
  then show ?thesis by (simp add: touched_def new_account_def)
next
  case (Some a)
  assume "balances_nonneg d"
  moreover from Some have "(uid, a) \<in> set (users d)" by (rule map_of_SomeD)
  ultimately have "0 \<le> balance a" by (auto simp: balances_nonneg_def list_all_iff)
  with Some show ?thesis by (simp add: touched_def)
qed

lemma apply_op_nonneg:
  assumes "lock d = RLock n" and "balances_nonneg d" and "credit_ok x"
  shows "fst (apply_op now x d) = Returns () \<and> lock (snd (apply_op now x d)) = RLock n
         \<and> balances_nonneg (snd (apply_op now x d))"
proof (cases x)
  case (Debit uid amount)
  with assms touched_nonneg [OF assms(2), of now uid] show ?thesis
    by (simp add: subtract_balance_reentrant bind_def return_def balances_nonneg_def
        list_all_update)
next
  case (Credit uid amount)
  with assms touched_nonneg [OF assms(2), of now uid] show ?thesis
    by (simp add: add_balance_reentrant balances_nonneg_def list_all_update)
qed

text \<open>
  With a re-entrant lock every debit and credit returns, and no run of debits and of
  credits of non-negative amounts makes a balance negative.
\<close>

lemma balance_never_negative_reentrant:
  "lock d = RLock n \<Longrightarrow> balances_nonneg d \<Longrightarrow> list_all credit_ok xs \<Longrightarrow>
   fst (run_ops now xs d) = Returns () \<and> lock (snd (run_ops now xs d)) = RLock n
   \<and> balances_nonneg (snd (run_ops now xs d))"
proof (induction xs arbitrary: d)
  case Nil
  then show ?case by (simp add: return_def)
next
  case (Cons x xs)
  from Cons.prems have step:
    "fst (apply_op now x d) = Returns ()" "lock (snd (apply_op now x d)) = RLock n"
    "balances_nonneg (snd (apply_op now x d))"
    using apply_op_nonneg [of d n x now] by simp_all
  from Cons.prems have "list_all credit_ok xs" by simp
  from Cons.IH [OF step(2) step(3) this] step(1) show ?case
    by (cases "apply_op now x d") (simp add: bind_def)
qed

text \<open>
  C1. \<^verbatim>\<open>subtract_balance\<close> takes the lock and calls \<^verbatim>\<open>get_user\<close>, which takes the
  same lock. The lock is a \<^verbatim>\<open>threading.Lock\<close>, so the inner acquisition waits for a
  release that never comes: whatever the store, the user and the amount, the call does
  not return, and no balance and no \<^verbatim>\<open>total_bet\<close> changes. A debit of 50 from a new
  account of the empty store, which the claim has succeed, is such a call.
\<close>

theorem subtract_balance_never_returns:
  "subtract_balance now uid amount (d\<lparr>lock := Lock held\<rparr>) = (Blocks, d\<lparr>lock := Lock True\<rparr>)
   \<and> subtract_balance now 1 50 init_database = (Blocks, init_database\<lparr>lock := Lock True\<rparr>)"
  using subtract_balance_blocks [where d = init_database and held = False]
    subtract_balance_blocks [where d = "d\<lparr>lock := Lock held\<rparr>" and held = held]
  by (simp add: init_database_def)

text \<open>
  C10. \<^verbatim>\<open>add_balance\<close> takes the lock and calls \<^verbatim>\<open>get_user\<close> in the same way: for
  every amount, negative ones included, the call does not return and adds nothing.
\<close>

theorem add_balance_never_returns:
  "add_balance now uid amount (d\<lparr>lock := Lock held\<rparr>) = (Blocks, d\<lparr>lock := Lock True\<rparr>)
   \<and> add_balance now 1 (- 50) init_database = (Blocks, init_database\<lparr>lock := Lock True\<rparr>)"
  using add_balance_blocks [where d = init_database and held = False]
    add_balance_blocks [where d = "d\<lparr>lock := Lock held\<rparr>" and held = held]
  by (simp add: init_database_def)



lemma claim_daily_missing_account:
  "map_of (users d) uid = None \<Longrightarrow> lock d \<noteq> Lock True \<Longrightarrow>
   claim_daily now uid amount d = (Raises KeyError, d)"
proof (cases "lock d")
  case (Lock held)
  assume "map_of (users d) uid = None" "lock d \<noteq> Lock True"
  with Lock show ?thesis
    by (simp add: claim_daily_def with_lock_def prog_defs relock)
next
  case (RLock n)
  assume "map_of (users d) uid = None"
  with RLock show ?thesis
    by (simp add: claim_daily_def with_lock_def prog_defs relock)
qed

lemma get_user_free:
  "lock d \<noteq> Lock True \<Longrightarrow>
   get_user now uid d =
     (Returns (touched now uid d), d\<lparr>users := AList.update uid (touched now uid d) (users d)\<rparr>)"
proof (cases "lock d")
  case (Lock held)
  assume "lock d \<noteq> Lock True"
  with Lock have "lock d = Lock False" by simp
  then show ?thesis
    by (simp add: get_user_def with_lock_def prog_defs touched_def update_conv' relock
        split: option.splits)
next
  case (RLock n)
  then show ?thesis by (rule get_user_reentrant)
qed





section \<open>The rank of a user\<close>

text \<open>
  In a list with distinct keys, the entries before the one with a given key are the
  longest prefix without that key.
\<close>

lemma first_with_key:
  assumes "distinct (map g xs)" and "x \<in> set xs"
  shows "\<exists>post. xs = takeWhile (\<lambda>y. g y \<noteq> g x) xs @ x # post"
proof -
  let ?P = "\<lambda>y. g y \<noteq> g x"
  from assms(2) have ne: "dropWhile ?P xs \<noteq> []" by auto
  then obtain y post where d: "dropWhile ?P xs = y # post" by (cases "dropWhile ?P xs") auto
  with hd_dropWhile [OF ne] have "g y = g x" by simp
  moreover have "y \<in> set xs"
    using d by (metis list.set_intros(1) set_dropWhileD)
  moreover from assms(1) have "inj_on g (set xs)" by (simp add: distinct_map)
  ultimately have "y = x" using assms(2) by (auto dest: inj_onD)
  with d have "xs = takeWhile ?P xs @ x # post"
    by (metis takeWhile_dropWhile_id)
  then show ?thesis ..
qed

lemma distinct_map_sort_key: "distinct (map g (sort_key f xs)) = distinct (map g xs)"
  by (simp add: distinct_map)

lemma length_below_or_equal:
  fixes f :: "'a \<Rightarrow> int"
  shows "\<forall>y\<in>set ys. f y \<le> k \<Longrightarrow>
    length ys = length (filter (\<lambda>y. f y < k) ys) + length (filter (\<lambda>y. f y = k) ys)"
  by (induction ys) auto

text \<open>
  Where a stable sort puts an entry: after the entries of smaller sort key, and after
  those of equal sort key that came before it.
\<close>

lemma stable_sort_position:
  fixes f :: "'a \<Rightarrow> int"
  assumes dist: "distinct (map g xs)" and mem: "x \<in> set xs"
  shows "length (takeWhile (\<lambda>y. g y \<noteq> g x) (sort_key f xs)) =
         length (filter (\<lambda>y. f y < f x) xs)
         + length (filter (\<lambda>y. f y = f x) (takeWhile (\<lambda>y. g y \<noteq> g x) xs))"
proof -
  let ?P = "\<lambda>y. g y \<noteq> g x"
  let ?ss = "sort_key f xs"
  let ?pre = "takeWhile ?P ?ss"
  let ?pre' = "takeWhile ?P xs"
  have dist_ss: "distinct (map g ?ss)"
    using dist by (simp add: distinct_map)
  from first_with_key [OF dist_ss] mem obtain post where ss: "?ss = ?pre @ x # post"
    by auto
  from first_with_key [OF dist mem] obtain post' where xs: "xs = ?pre' @ x # post'"
    by auto
  have "sorted (map f ?ss)" by simp
  then have "sorted (map f (?pre @ x # post))" using ss by simp
  then have le: "\<forall>y\<in>set ?pre. f y \<le> f x" and ge: "\<forall>y\<in>set post. f x \<le> f y"
    by (auto simp: sorted_append)
  have split_pre: "length ?pre =
      length (filter (\<lambda>y. f y < f x) ?pre) + length (filter (\<lambda>y. f y = f x) ?pre)"
    using le by (rule length_below_or_equal)
  have "filter (\<lambda>y. f y < f x) ?ss = filter (\<lambda>y. f y < f x) (?pre @ x # post)"
    using ss by simp
  also have "\<dots> = filter (\<lambda>y. f y < f x) ?pre"
    using ge by (auto simp: filter_empty_conv)
  finally have "length (filter (\<lambda>y. f y < f x) ?pre) = length (filter (\<lambda>y. f y < f x) ?ss)"
    by simp
  also have "\<dots> = length (filter (\<lambda>y. f y < f x) xs)"
    by (simp add: filter_sort)
  finally have lower: "length (filter (\<lambda>y. f y < f x) ?pre) = length (filter (\<lambda>y. f y < f x) xs)" .
  let ?E = "\<lambda>y. f y = f x"
  have "filter ?E ?ss = filter ?E xs"
    by (rule sort_key_stable)
  moreover have "filter ?E ?ss = filter ?E ?pre @ x # filter ?E post"
    by (subst ss) simp
  moreover have "filter ?E xs = filter ?E ?pre' @ x # filter ?E post'"
    by (subst xs) simp
  ultimately have eq: "filter ?E ?pre @ x # filter ?E post = filter ?E ?pre' @ x # filter ?E post'"
    by simp
  have "distinct ?ss" using dist by (simp add: distinct_map)
  then have "distinct (?pre @ x # post)" using ss by simp
  then have "x \<notin> set (filter ?E ?pre)" "x \<notin> set (filter ?E post)" by auto
  with eq have "filter ?E ?pre = filter ?E ?pre'"
    by (simp add: append_Cons_eq_iff)
  with split_pre lower show ?thesis by simp
qed

lemma rank_scan_takeWhile:
  "rank_scan i es uid =
     (if uid \<in> lb_user_id ` set es
      then Some (i + length (takeWhile (\<lambda>e. lb_user_id e \<noteq> uid) es) + 1) else None)"
  by (induction es arbitrary: i) auto

lemma rank_scan_take:
  assumes "distinct (map lb_user_id es)" and "e \<in> set es" and "lb_user_id e = uid"
  shows "rank_scan 0 (take n es) uid =
     (if length (takeWhile (\<lambda>y. lb_user_id y \<noteq> uid) es) < n
      then Some (length (takeWhile (\<lambda>y. lb_user_id y \<noteq> uid) es) + 1) else None)"
proof -
  let ?P = "\<lambda>y. lb_user_id y \<noteq> uid"
  let ?pre = "takeWhile ?P es"
  from first_with_key [OF assms(1,2)] assms(3) obtain post where es: "es = ?pre @ e # post"
    by auto
  have pre: "\<forall>y\<in>set ?pre. ?P y" by (auto dest: set_takeWhileD)
  show ?thesis
  proof (cases "length ?pre < n")
    case True
    have "take n es = take n (?pre @ e # post)" using es by simp
    also have "\<dots> = ?pre @ e # take (n - Suc (length ?pre)) post"
      using True by (simp add: take_Cons')
    finally have t: "take n es = ?pre @ e # take (n - Suc (length ?pre)) post" .
    have "takeWhile ?P (?pre @ e # take (n - Suc (length ?pre)) post) = ?pre"
      using pre assms(3) by (simp add: takeWhile_tail)
    moreover have "uid \<in> lb_user_id ` set (?pre @ e # take (n - Suc (length ?pre)) post)"
      using assms(3) by auto
    ultimately show ?thesis using True unfolding rank_scan_takeWhile t by simp
  next
    case False
    have "take n es = take n (?pre @ e # post)" using es by simp
    also have "\<dots> = take n ?pre" using False by simp
    finally have "set (take n es) \<subseteq> set ?pre" by (simp add: set_take_subset)
    with pre have "uid \<notin> lb_user_id ` set (take n es)" by auto
    with False show ?thesis by (simp add: rank_scan_takeWhile)
  qed
qed

lemma position_spec_entries:
  assumes "map_of us uid = Some a"
  shows "position_spec us uid =
     1 + length (filter (\<lambda>e. - lb_balance e < - lb_balance (make_entry (uid, a))) (map make_entry us))
       + length (filter (\<lambda>e. - lb_balance e = - lb_balance (make_entry (uid, a)))
           (takeWhile (\<lambda>e. lb_user_id e \<noteq> lb_user_id (make_entry (uid, a))) (map make_entry us)))"
  using assms
  by (simp add: position_spec_def takeWhile_map filter_map comp_def make_entry_def)

lemma first_with_key_length:
  assumes dist_ss: "distinct (map lb_user_id ss)" and mem_ss: "e \<in> set ss" and uid: "lb_user_id e = uid"
  shows "length (takeWhile (\<lambda>y. lb_user_id y \<noteq> uid) ss) < length ss"
proof -
  from first_with_key [OF dist_ss mem_ss] uid obtain post where
    "ss = takeWhile (\<lambda>y. lb_user_id y \<noteq> uid) ss @ e # post" by auto
  then have "length ss = length (takeWhile (\<lambda>y. lb_user_id y \<noteq> uid) ss @ e # post)"
    by simp
  then show ?thesis by simp
qed


lemma slice_to_nat: "slice_to (int n) xs = take n xs"
  by (simp add: slice_to_def)

lemma rank_within:
  assumes dict: "dict_ok us" and acct: "map_of us uid = Some a"
  shows "(let leaderboard = take n (sort_key (\<lambda>e. - lb_balance e) (map make_entry us)) in
          case rank_scan 0 leaderboard uid of Some r \<Rightarrow> r | None \<Rightarrow> length leaderboard + 1) =
     (if position_spec us uid \<le> n then position_spec us uid else n + 1)"
proof -
  let ?es = "map make_entry us"
  let ?f = "\<lambda>e. - lb_balance e"
  let ?ss = "sort_key ?f ?es"
  let ?e = "make_entry (uid, a)"
  let ?pre = "takeWhile (\<lambda>y. lb_user_id y \<noteq> uid) ?ss"
  have "lb_user_id \<circ> make_entry = fst"
    by (simp add: fun_eq_iff make_entry_def)
  with dict have dist: "distinct (map lb_user_id ?es)" by (simp add: dict_ok_def)
  from acct have "(uid, a) \<in> set us" by (rule map_of_SomeD)
  then have mem: "?e \<in> set ?es" by auto
  have uid: "lb_user_id ?e = uid" by (simp add: make_entry_def)
  have "length (takeWhile (\<lambda>y. lb_user_id y \<noteq> lb_user_id ?e) ?ss) =
      length (filter (\<lambda>y. ?f y < ?f ?e) ?es)
      + length (filter (\<lambda>y. ?f y = ?f ?e) (takeWhile (\<lambda>y. lb_user_id y \<noteq> lb_user_id ?e) ?es))"
    using dist mem by (rule stable_sort_position)
  then have pos: "position_spec us uid = length ?pre + 1"
    unfolding position_spec_entries [OF acct] uid by simp
  have dist_ss: "distinct (map lb_user_id ?ss)"
    using dist by (simp only: distinct_map_sort_key)
  have mem_ss: "?e \<in> set ?ss" using mem by (simp only: set_sort)
  have scan: "rank_scan 0 (take n ?ss) uid =
      (if length ?pre < n then Some (length ?pre + 1) else None)"
    using dist_ss mem_ss uid by (rule rank_scan_take)
  have "length ?pre < length ?ss"
    using dist_ss mem_ss uid by (rule first_with_key_length)
  then have len: "\<not> length ?pre < n \<Longrightarrow> length (take n ?ss) = n"
    by simp
  show ?thesis
  proof (cases "length ?pre < n")
    case True
    then have "position_spec us uid \<le> n" using pos by simp
    with True show ?thesis unfolding Let_def scan pos by simp
  next
    case False
    then have "\<not> position_spec us uid \<le> n" using pos by simp
    with False len show ?thesis unfolding Let_def scan by simp
  qed
qed

text \<open>The store of accounts is a dictionary from the start and after every write.\<close>

lemma dict_ok_store_user:
  "dict_ok (users d) \<Longrightarrow> dict_ok (users (snd (store_user uid a d)))"
  by (simp add: dict_ok_def store_user_def return_def distinct_update)

lemma dict_ok_init: "dict_ok (users init_database)"
  by (simp add: dict_ok_def init_database_def)

text \<open>
  C9, as the code has it. \<^verbatim>\<open>get_user_rank\<close> searches the first 1000 entries of the
  leaderboard. For a user with an account it returns the position of that user in the
  full ordering (balance descending, ties in the order of the dictionary) when that
  position is at most 1000, as it is in every store of at most 1000 accounts, and 1001
  otherwise.
\<close>

theorem get_user_rank_position:
  assumes "dict_ok (users d)" and "map_of (users d) uid = Some a"
  shows "get_user_rank d uid =
     (if position_spec (users d) uid \<le> 1000 then position_spec (users d) uid else 1001)"
proof -
  have "get_leaderboard 1000 d =
      take 1000 (sort_key (\<lambda>e. - lb_balance e) (map make_entry (users d)))"
    using slice_to_nat [of 1000] by (simp add: get_leaderboard_def)
  then show ?thesis
    unfolding get_user_rank_def using rank_within [OF assms, of 1000] by simp
qed


lemma new_users_dict: "dict_ok (map (\<lambda>i. (int i, a)) [0..<n])"
  by (simp add: dict_ok_def comp_def distinct_map inj_on_def)

lemma new_users_last:
  "map_of (map (\<lambda>i. (int i, a)) [0..<n + 1]) (int n) = Some a"
proof -
  have "map_of (map (\<lambda>i. (int i, a)) [0..<n]) (int n) = None"
    by (auto simp: map_of_eq_None_iff)
  then show ?thesis by (simp add: map_add_def)
qed

lemma new_users_position:
  "position_spec (map (\<lambda>i. (int i, a)) [0..<n + 1]) (int n) = n + 1"
proof -
  let ?us = "map (\<lambda>i. (int i, a)) [0..<n]"
  have us: "map (\<lambda>i. (int i, a)) [0..<n + 1] = ?us @ [(int n, a)]" by simp
  have "takeWhile (\<lambda>p. fst p \<noteq> int n) (?us @ [(int n, a)]) = ?us"
    by (subst takeWhile_append2) auto
  moreover have "filter (\<lambda>p. balance (snd p) = balance a) ?us = ?us"
    by (simp add: filter_map comp_def)
  moreover have "filter (\<lambda>p. balance a < balance (snd p)) (?us @ [(int n, a)]) = []"
    by (simp add: filter_map comp_def)
  ultimately show ?thesis
    unfolding position_spec_def new_users_last us [symmetric]
    by (simp only: us option.case) simp
qed

theorem get_user_rank_witness:
  "dict_ok (users (init_database\<lparr>users := [(5, new_account 0),
      (7, (new_account 0)\<lparr>balance := 20000\<rparr>), (9, new_account 0)]\<rparr>))
   \<and> map_of (users (init_database\<lparr>users := [(5, new_account 0),
      (7, (new_account 0)\<lparr>balance := 20000\<rparr>), (9, new_account 0)]\<rparr>)) 9 = Some (new_account 0)
   \<and> position_spec [(5, new_account 0), (7, (new_account 0)\<lparr>balance := 20000\<rparr>),
      (9, new_account 0)] 9 = 3
   \<and> get_user_rank (init_database\<lparr>users := [(5, new_account 0),
      (7, (new_account 0)\<lparr>balance := 20000\<rparr>), (9, new_account 0)]\<rparr>) 9 = 3"
proof -
  let ?us = "[(5, new_account 0), (7, (new_account 0)\<lparr>balance := 20000\<rparr>), (9, new_account 0)]"
  let ?d = "init_database\<lparr>users := ?us\<rparr>"
  have ok: "dict_ok (users ?d)" by (simp add: dict_ok_def)
  have acct: "map_of (users ?d) 9 = Some (new_account 0)" by simp
  have pos: "position_spec ?us 9 = 3" by (simp add: position_spec_def new_account_def)
  from get_user_rank_position [OF ok acct] pos ok acct show ?thesis by simp
qed

text \<open>
  C9 as stated fails in a store of 1002 new accounts, all of balance 10000: the last of
  them is at position 1002 of the ordering, and its rank is given as 1001.
\<close>

theorem get_user_rank_beyond_limit_counterexample:
  "position_spec (map (\<lambda>i. (int i, new_account 0)) [0..<1002]) 1001 = 1002
   \<and> get_user_rank
        (init_database\<lparr>users := map (\<lambda>i. (int i, new_account 0)) [0..<1002]\<rparr>) 1001 = 1001"
proof -
  let ?us = "map (\<lambda>i. (int i, new_account 0)) [0..<1002]"
  have n: "(1001::nat) + 1 = 1002" "int 1001 = 1001" by simp_all
  have pos: "position_spec ?us 1001 = 1002"
    using new_users_position [of "new_account 0" 1001] unfolding n by simp
  have acct: "map_of ?us 1001 = Some (new_account 0)"
    using new_users_last [of "new_account 0" 1001] unfolding n .
  have ok: "dict_ok ?us" by (rule new_users_dict)
  have board: "get_leaderboard 1000 (init_database\<lparr>users := ?us\<rparr>) =
      take 1000 (sort_key (\<lambda>e. - lb_balance e) (map make_entry ?us))"
    using slice_to_nat [of 1000] by (simp add: get_leaderboard_def)
  have "get_user_rank (init_database\<lparr>users := ?us\<rparr>) 1001 = 1001"
    unfolding get_user_rank_def board using rank_within [OF ok acct, of 1000] pos by simp
  with pos show ?thesis by simp
qed

section \<open>Blackjack rounds\<close>

lemma new_deck_full: "length new_deck = 52 \<and> distinct new_deck"
  by (simp add: new_deck_def suits_def ranks_def)

lemma ace_last_deck_shuffled:
  "length ace_last_deck = 52 \<and> distinct ace_last_deck \<and> set ace_last_deck = set new_deck"
  by (simp add: ace_last_deck_def new_deck_def suits_def ranks_def) auto

lemma on_db_blocks:
  "lock (db bj) = Lock held \<Longrightarrow>
   on_db (subtract_balance now uid amount) bj = (Blocks, bj\<lparr>db := (db bj)\<lparr>lock := Lock True\<rparr>\<rparr>)"
  by (simp add: on_db_def subtract_balance_blocks)

lemma play_blocks:
  "lock (db bj) = Lock held \<Longrightarrow>
   play now new_id shuffled uid stake bj = (Blocks, bj\<lparr>db := (db bj)\<lparr>lock := Lock True\<rparr>\<rparr>)"
  by (simp add: play_def bind_def on_db_blocks)

lemma hit_not_found:
  "map_of (active_games bj) gid = None \<Longrightarrow> hit now gid bj = (Returns Game_not_found, bj)"
  by (simp add: hit_def return_def)

lemma stand_not_found:
  "map_of (active_games bj) gid = None \<Longrightarrow> stand now gid bj = (Returns Game_not_found, bj)"
  by (simp add: stand_def return_def)

text \<open>
  As the class is written no round comes to its end: a bust in \<^verbatim>\<open>hit\<close> marks the
  round finished and then waits in \<^verbatim>\<open>_finish_game\<close>, and \<^verbatim>\<open>stand\<close>, once the
  dealer has drawn, waits in its credit or in \<^verbatim>\<open>_finish_game\<close>.
\<close>

lemma on_db_update_stats_blocks:
  "lock (db bj) = Lock held \<Longrightarrow>
   on_db (update_stats now uid name v) bj = (Blocks, bj\<lparr>db := (db bj)\<lparr>lock := Lock True\<rparr>\<rparr>)"
  by (simp add: on_db_def update_stats_blocks)

lemma on_db_add_balance_blocks:
  "lock (db bj) = Lock held \<Longrightarrow>
   on_db (add_balance now uid amount) bj = (Blocks, bj\<lparr>db := (db bj)\<lparr>lock := Lock True\<rparr>\<rparr>)"
  by (simp add: on_db_def add_balance_blocks)

lemma finish_game_blocks:
  assumes "map_of (active_games bj) gid = Some g" and "lock (db bj) = Lock held"
    and "result g \<in> {Some Player_blackjack, Some Player_wins, Some Dealer_bust,
                      Some Dealer_blackjack, Some Dealer_wins, Some Player_bust}"
  shows "finish_game now gid bj = (Blocks, bj\<lparr>db := (db bj)\<lparr>lock := Lock True\<rparr>\<rparr>)"
  using assms
  by (auto simp: finish_game_def bind_def on_db_update_stats_blocks [where held = held])

lemma hit_bust_blocks:
  assumes "map_of (active_games bj) gid = Some g" and "pop (deck g) = Some (c, rest)"
    and "hand_value (player_hand g @ [c]) > 21" and "lock (db bj) = Lock held"
  shows "hit now gid bj =
     (Blocks,
      bj\<lparr>active_games := AList.update gid
            (g\<lparr>deck := rest, player_hand := player_hand g @ [c], game_state := Finished,
               result := Some Player_bust\<rparr>) (active_games bj),
         db := (db bj)\<lparr>lock := Lock True\<rparr>\<rparr>)"
proof -
  let ?g2 = "g\<lparr>deck := rest, player_hand := player_hand g @ [c], game_state := Finished,
      result := Some Player_bust\<rparr>"
  let ?bj2 = "bj\<lparr>active_games := AList.update gid ?g2 (active_games bj)\<rparr>"
  have "finish_game now gid ?bj2 = (Blocks, ?bj2\<lparr>db := (db ?bj2)\<lparr>lock := Lock True\<rparr>\<rparr>)"
    using assms(4) by (intro finish_game_blocks [where g = ?g2 and held = held])
      (simp_all add: update_conv')
  with assms show ?thesis
    by (simp add: hit_def bind_def store_game_def return_def Let_def)
qed


lemma stand_blocks:
  assumes g: "map_of (active_games bj) gid = Some g"
    and turn: "dealer_turn (deck g) (dealer_hand g) = (True, rest, dealer)"
    and held: "lock (db bj) = Lock held"
  shows "fst (stand now gid bj) = Blocks"
proof -
  let ?g1 = "g\<lparr>deck := rest, dealer_hand := dealer\<rparr>"
  let ?bj1 = "bj\<lparr>active_games := AList.update gid ?g1 (active_games bj)\<rparr>"
  let ?g3 = "?g1\<lparr>result := Some Dealer_wins, game_state := Finished\<rparr>"
  let ?bj3 = "?bj1\<lparr>active_games := AList.update gid ?g3 (active_games ?bj1)\<rparr>"
  have credit: "on_db (add_balance now uid amount) ?bj1 =
      (Blocks, ?bj1\<lparr>db := (db ?bj1)\<lparr>lock := Lock True\<rparr>\<rparr>)" for uid amount
    using held by (intro on_db_add_balance_blocks [where held = held]) simp
  have finish: "finish_game now gid ?bj3 = (Blocks, ?bj3\<lparr>db := (db ?bj3)\<lparr>lock := Lock True\<rparr>\<rparr>)"
    using held by (intro finish_game_blocks [where g = ?g3 and held = held])
      (simp_all add: update_conv')
  show ?thesis
    using g turn finish
    by (simp add: stand_def bind_def store_game_def return_def Let_def credit)
qed

lemma deal_new_deck:
  "deal new_deck bj =
     (Returns ([\<lparr>rank = King, suit = Clubs\<rparr>, \<lparr>rank = Queen, suit = Clubs\<rparr>],
               [\<lparr>rank = Jack, suit = Clubs\<rparr>, \<lparr>rank = Ten, suit = Clubs\<rparr>],
               take 48 new_deck), bj)"
  by (simp add: deal_def pop_def new_deck_def suits_def ranks_def return_def)

lemma deal_ace_last_deck:
  "deal ace_last_deck bj =
     (Returns ([\<lparr>rank = Ace, suit = Clubs\<rparr>, \<lparr>rank = King, suit = Clubs\<rparr>],
               [\<lparr>rank = Queen, suit = Clubs\<rparr>, \<lparr>rank = Jack, suit = Clubs\<rparr>],
               take 48 ace_last_deck), bj)"
  by (simp add: deal_def pop_def ace_last_deck_def new_deck_def suits_def ranks_def return_def)

lemma pop_rest_new_deck:
  "pop (take 48 new_deck) = Some (\<lparr>rank = Nine, suit = Clubs\<rparr>, take 47 new_deck)"
  by (simp add: pop_def new_deck_def suits_def ranks_def)


lemmas ledger_eval = subtract_balance_def add_balance_def update_stats_def get_user_def
  with_lock_def bind_def return_def raise_def lookup_user_def store_user_def lookup_stat_def
  store_stat_def update_biggest_def on_db_def update_conv'

lemmas game_eval = play_def hit_def stand_def finish_game_def store_game_def delete_game_def
  table_def is_blackjack_def hand_value_def count_card_def card_value_def int_of_halves_def
  Let_def

text \<open>
  C4. User 1 stakes 100 on \<open>ace_last_deck\<close>, which deals the player the ace and the king
  of clubs. As the class is written the call waits for the lock inside
  \<^verbatim>\<open>subtract_balance\<close> and updates nothing. With a re-entrant lock it returns a
  player blackjack and pays 250, the round is counted as played, and neither
  \<^verbatim>\<open>blackjack_won\<close> nor \<^verbatim>\<open>total_winnings\<close> changes: \<^verbatim>\<open>play\<close> never calls
  \<^verbatim>\<open>_finish_game\<close>, where the statistics of a natural are written.
\<close>

theorem play_natural_skips_statistics:
  "play 0 ''g1'' ace_last_deck 1 100 (table init_database)
     = (Blocks, table (init_database\<lparr>lock := Lock True\<rparr>))
   \<and> map_option result (returned (fst (play 0 ''g1'' ace_last_deck 1 100
        (table (init_database\<lparr>lock := RLock 0\<rparr>))))) = Some (Some Player_blackjack)
   \<and> balance_of (db (snd (play 0 ''g1'' ace_last_deck 1 100
        (table (init_database\<lparr>lock := RLock 0\<rparr>))))) 1 = Some 10150
   \<and> stat_of (db (snd (play 0 ''g1'' ace_last_deck 1 100
        (table (init_database\<lparr>lock := RLock 0\<rparr>))))) 1 ''blackjack_played'' = Some 1
   \<and> stat_of (db (snd (play 0 ''g1'' ace_last_deck 1 100
        (table (init_database\<lparr>lock := RLock 0\<rparr>))))) 1 ''blackjack_won'' = Some 0
   \<and> stat_of (db (snd (play 0 ''g1'' ace_last_deck 1 100
        (table (init_database\<lparr>lock := RLock 0\<rparr>))))) 1 ''total_winnings'' = Some 0"
proof -
  have locked: "play 0 ''g1'' ace_last_deck 1 100 (table init_database)
      = (Blocks, table (init_database\<lparr>lock := Lock True\<rparr>))"
    using play_blocks [where bj = "table init_database" and held = False]
    by (simp add: table_def init_database_def)
  let ?run = "play 0 ''g1'' ace_last_deck 1 100 (table (init_database\<lparr>lock := RLock 0\<rparr>))"
  have run: "map_option result (returned (fst ?run)) = Some (Some Player_blackjack)
      \<and> balance_of (db (snd ?run)) 1 = Some 10150
      \<and> stat_of (db (snd ?run)) 1 ''blackjack_played'' = Some 1
      \<and> stat_of (db (snd ?run)) 1 ''blackjack_won'' = Some 0
      \<and> stat_of (db (snd ?run)) 1 ''total_winnings'' = Some 0"
    by (simp add: ledger_eval game_eval deal_ace_last_deck init_database_def new_account_def
        balance_of_def stat_of_def)
  from locked run show ?thesis by simp
qed


text \<open>The open round is the state \<^verbatim>\<open>play\<close> leaves with a re-entrant lock.\<close>

lemma play_new_deck_reentrant:
  "snd (play 0 ''g1'' new_deck 1 100 (table (init_database\<lparr>lock := RLock 0\<rparr>)))
     = round_in_play (RLock 0)"
  by (simp add: ledger_eval game_eval deal_new_deck init_database_def new_account_def
      round_in_play_def)

subsection \<open>The table of rounds after a call that returns\<close>

















lemma run_call_empty:
  assumes "active_games bj = []" and "lock (db bj) = Lock held"
  shows "active_games (run_call c bj) = [] \<and> (\<exists>held'. lock (db (run_call c bj)) = Lock held')"
proof (cases c)
  case (Play now new_id shuffled uid stake)
  with assms show ?thesis by (auto simp: play_blocks [where held = held])
next
  case (Hit now gid)
  with assms show ?thesis by (simp add: hit_not_found)
next
  case (Stand now gid)
  with assms show ?thesis by (simp add: stand_not_found)
qed

lemma run_calls_empty:
  "active_games bj = [] \<Longrightarrow> lock (db bj) = Lock held \<Longrightarrow>
   active_games (run_calls cs bj) = [] \<and> (\<exists>held'. lock (db (run_calls cs bj)) = Lock held')"
proof (induction cs arbitrary: bj held)
  case Nil
  then show ?case by (simp add: run_calls_def)
next
  case (Cons c cs)
  from run_call_empty [OF Cons.prems, of c] obtain held' where
    "active_games (run_call c bj) = []" "lock (db (run_call c bj)) = Lock held'" by blast
  from Cons.IH [OF this] show ?case by (simp add: run_calls_def)
qed

lemma table_stays_empty:
  "active_games (run_calls cs (table init_database)) = []
   \<and> no_finished (run_calls cs (table init_database))"
  using run_calls_empty [where bj = "table init_database" and held = False and cs = cs]
  by (simp add: table_def init_database_def no_finished_def)

text \<open>
  With a re-entrant lock, \<^verbatim>\<open>hit\<close> on the open round draws the nine of clubs, returns
  the bust and leaves the table empty.
\<close>

lemma hit_bust_reentrant:
  "fst (hit 1 ''g1'' (round_in_play (RLock 0)))
     = Returns (View \<lparr>game_id = ''g1'', user_id = 1, bet = 100, deck = take 47 new_deck,
         player_hand = [\<lparr>rank = King, suit = Clubs\<rparr>, \<lparr>rank = Queen, suit = Clubs\<rparr>,
                        \<lparr>rank = Nine, suit = Clubs\<rparr>],
         dealer_hand = [\<lparr>rank = Jack, suit = Clubs\<rparr>, \<lparr>rank = Ten, suit = Clubs\<rparr>],
         game_state = Finished, result = Some Player_bust\<rparr>)
   \<and> active_games (snd (hit 1 ''g1'' (round_in_play (RLock 0)))) = []"
  by (simp add: ledger_eval game_eval pop_rest_new_deck round_in_play_def init_database_def
      new_account_def)



subsection \<open>A stake above the balance\<close>

text \<open>
  C2. User 1 is new to the store, so \<^verbatim>\<open>get_user\<close> returns an account that holds
  10000, and then stakes 20000. \<^verbatim>\<open>play\<close> does not return: its first statement,
  \<^verbatim>\<open>subtract_balance\<close>, waits for the lock that it holds itself. So the call reports
  nothing, neither insufficient funds nor anything else; it registers no round and
  changes no account. The same holds for every user, every stake and every state of the
  object whose lock is the one that the class constructs.
\<close>

theorem play_short_of_funds_never_returns:
  "fst (get_user 0 1 init_database) = Returns (new_account 0)
   \<and> balance_of (snd (get_user 0 1 init_database)) 1 = Some 10000
   \<and> play 1 ''g1'' new_deck 1 20000 (table (snd (get_user 0 1 init_database)))
       = (Blocks, table ((snd (get_user 0 1 init_database))\<lparr>lock := Lock True\<rparr>))
   \<and> fst (play now new_id shuffled uid stake (bj\<lparr>db := (db bj)\<lparr>lock := Lock held\<rparr>\<rparr>)) = Blocks
   \<and> active_games (snd (play now new_id shuffled uid stake
        (bj\<lparr>db := (db bj)\<lparr>lock := Lock held\<rparr>\<rparr>))) = active_games bj
   \<and> users (db (snd (play now new_id shuffled uid stake
        (bj\<lparr>db := (db bj)\<lparr>lock := Lock held\<rparr>\<rparr>)))) = users (db bj)"
proof -
  have free: "lock init_database \<noteq> Lock True"
    by (simp add: init_database_def)
  have created: "get_user 0 1 init_database
      = (Returns (new_account 0), init_database\<lparr>users := [(1, new_account 0)]\<rparr>)"
    using get_user_free [OF free, of 0 1] by (simp add: touched_def init_database_def)
  have funds: "balance_of (init_database\<lparr>users := [(1, new_account 0)]\<rparr>) 1 = Some 10000"
    by (simp add: balance_of_def new_account_def)
  have stuck: "play 1 ''g1'' new_deck 1 20000 (table (init_database\<lparr>users := [(1, new_account 0)]\<rparr>))
      = (Blocks, table (init_database\<lparr>users := [(1, new_account 0)], lock := Lock True\<rparr>))"
    using play_blocks [where bj = "table (init_database\<lparr>users := [(1, new_account 0)]\<rparr>)"
        and held = False]
    by (simp add: table_def init_database_def)
  have general: "play now new_id shuffled uid stake (bj\<lparr>db := (db bj)\<lparr>lock := Lock held\<rparr>\<rparr>)
      = (Blocks, bj\<lparr>db := (db bj)\<lparr>lock := Lock True\<rparr>\<rparr>)"
    using play_blocks [where bj = "bj\<lparr>db := (db bj)\<lparr>lock := Lock held\<rparr>\<rparr>" and held = held]
    by simp
  from created funds stuck general show ?thesis by simp
qed

text \<open>
  Were the lock re-entrant, the debit of a stake of 5000 from an account that holds 300
  would return false, and \<^verbatim>\<open>play\<close>, which drops that answer, would register the round
  with its stake of 5000 and the balance still 300; the push that \<^verbatim>\<open>stand\<close> then
  finds would credit 5000.
\<close>

lemma play_ignores_failed_debit_reentrant:
  "fst (on_db (subtract_balance 0 1 5000) (short_of_funds (RLock 0))) = Returns False
   \<and> map_option bet (map_of (active_games
        (snd (play 0 ''g1'' new_deck 1 5000 (short_of_funds (RLock 0))))) ''g1'') = Some 5000
   \<and> balance_of (db (snd (play 0 ''g1'' new_deck 1 5000 (short_of_funds (RLock 0))))) 1
       = Some 300
   \<and> balance_of (db (snd (stand 1 ''g1''
        (snd (play 0 ''g1'' new_deck 1 5000 (short_of_funds (RLock 0))))))) 1 = Some 5300"
proof -
  have b: "fst (on_db (subtract_balance 0 1 5000) (short_of_funds (RLock 0))) = Returns False"
    by (simp add: ledger_eval short_of_funds_def init_database_def new_account_def)
  let ?bj = "\<lparr>db = init_database
      \<lparr>users := [(1, (new_account 0)
         \<lparr>balance := 300, stats := AList.update ''blackjack_played'' 1 (stats (new_account 0))\<rparr>)],
       lock := RLock 0\<rparr>,
     active_games =
       [(''g1'', \<lparr>game_id = ''g1'', user_id = 1, bet = 5000, deck = take 48 new_deck,
          player_hand = [\<lparr>rank = King, suit = Clubs\<rparr>, \<lparr>rank = Queen, suit = Clubs\<rparr>],
          dealer_hand = [\<lparr>rank = Jack, suit = Clubs\<rparr>, \<lparr>rank = Ten, suit = Clubs\<rparr>],
          game_state = Playing, result = None\<rparr>)]\<rparr>"
  have run: "snd (play 0 ''g1'' new_deck 1 5000 (short_of_funds (RLock 0))) = ?bj"
    by (simp add: ledger_eval game_eval deal_new_deck short_of_funds_def init_database_def
        new_account_def)
  have c: "map_option bet (map_of (active_games ?bj) ''g1'') = Some 5000"
      "balance_of (db ?bj) 1 = Some 300"
    by (simp_all add: balance_of_def)
  have d: "balance_of (db (snd (stand 1 ''g1'' ?bj))) 1 = Some 5300"
    by (simp add: ledger_eval game_eval should_dealer_hit_def init_database_def new_account_def
        balance_of_def)
  from b c d show ?thesis unfolding run by simp
qed

text \<open>
  The only test of the funds is in the command handler: for a user whose account holds
  less than the stake, \<^verbatim>\<open>blackjack_command\<close> answers with the message of the first
  check that fails (cooldown, minimum bet, maximum bet, and then insufficient balance,
  with the balance), never calls \<^verbatim>\<open>play\<close>, registers no round and changes no balance.
\<close>

lemma blackjack_command_insufficient:
  assumes acct: "map_of (users (db (blackjack_game casino))) uid = Some a"
    and poor: "balance a < stake"
    and free: "lock (db (blackjack_game casino)) \<noteq> Lock True"
  shows "fst (blackjack_command now new_id shuffled uid stake casino) =
           Returns (if \<not> fst (check_rate_limit now uid ''game'' (rate_limiter casino))
                    then Wait_message
                    else if stake < 10 then Minimum_bet_message
                    else if stake > 10000 then Maximum_bet_message
                    else Insufficient_balance_message (balance a))
         \<and> active_games (blackjack_game (snd (blackjack_command now new_id shuffled uid stake casino)))
             = active_games (blackjack_game casino)
         \<and> (\<forall>u. balance_of (db (blackjack_game
               (snd (blackjack_command now new_id shuffled uid stake casino)))) u
             = balance_of (db (blackjack_game casino)) u)"
proof -
  obtain allowed rl where chk: "check_rate_limit now uid ''game'' (rate_limiter casino) = (allowed, rl)"
    by (cases "check_rate_limit now uid ''game'' (rate_limiter casino)")
  let ?c = "casino\<lparr>rate_limiter := rl\<rparr>"
  have read: "on_game (on_db (get_user now uid)) ?c =
      (Returns (a\<lparr>last_played := now\<rparr>),
       ?c\<lparr>blackjack_game := (blackjack_game casino)
          \<lparr>db := (db (blackjack_game casino))
             \<lparr>users := AList.update uid (a\<lparr>last_played := now\<rparr>)
                (users (db (blackjack_game casino)))\<rparr>\<rparr>\<rparr>)"
    using acct free by (simp add: on_game_def on_db_def get_user_free touched_def)
  show ?thesis
    using poor acct
    by (simp add: blackjack_command_def chk bind_def read return_def balance_of_def update_conv')
qed

lemma blackjack_command_insufficient_example:
  "map_of (users (db (blackjack_game
      \<lparr>blackjack_game = short_of_funds (Lock False), rate_limiter = init_rate_limiter\<rparr>))) 1
     = Some ((new_account 0)\<lparr>balance := 300\<rparr>)
   \<and> balance ((new_account 0)\<lparr>balance := 300\<rparr>) < 5000
   \<and> lock (db (blackjack_game
      \<lparr>blackjack_game = short_of_funds (Lock False), rate_limiter = init_rate_limiter\<rparr>))
       \<noteq> Lock True
   \<and> fst (blackjack_command 0 ''g1'' new_deck 1 5000
        \<lparr>blackjack_game = short_of_funds (Lock False), rate_limiter = init_rate_limiter\<rparr>)
       = Returns (Insufficient_balance_message 300)
   \<and> active_games (blackjack_game (snd (blackjack_command 0 ''g1'' new_deck 1 5000
        \<lparr>blackjack_game = short_of_funds (Lock False), rate_limiter = init_rate_limiter\<rparr>)))
       = []"
proof -
  let ?c = "\<lparr>blackjack_game = short_of_funds (Lock False), rate_limiter = init_rate_limiter\<rparr>"
  have acct: "map_of (users (db (blackjack_game ?c))) 1 = Some ((new_account 0)\<lparr>balance := 300\<rparr>)"
    by (simp add: short_of_funds_def)
  have poor: "balance ((new_account 0)\<lparr>balance := 300\<rparr>) < 5000"
    by simp
  have free: "lock (db (blackjack_game ?c)) \<noteq> Lock True"
    by (simp add: short_of_funds_def)
  have allowed: "fst (check_rate_limit 0 1 ''game'' (rate_limiter ?c))"
    by (simp add: limiter_eval)
  have empty: "active_games (blackjack_game ?c) = []"
    by (simp add: short_of_funds_def)
  from blackjack_command_insufficient [OF acct poor free, of 0 "''g1''" new_deck]
    acct poor free allowed empty
  show ?thesis by simp
qed

end
